theory Spec2Isabelle
  imports Main
begin

section \<open>Python values\<close>

text \<open>
  A Python \<open>str\<close> is a sequence of Unicode code points: the instruction text and every
  string built from it is a list of code points, so that the Hangul keywords of the
  classifiers and \<open>len\<close> are what Python sees. Literals of the source that are plain
  ASCII and act as tags (intent names, model names, log levels) are kept as \<open>string\<close>
  and injected with \<open>ascii\<close> where an f-string interpolates them.
\<close>

type_synonym ustr = "nat list"

definition ascii :: "string \<Rightarrow> ustr" where
  "ascii s = map of_char s"

text \<open>\<open>str(n)\<close> of an integer, as the f-strings print status codes and the port.\<close>

fun str_nat :: "nat \<Rightarrow> ustr" where
  "str_nat n = (if n < 10 then [48 + n] else str_nat (n div 10) @ [48 + n mod 10])"

declare str_nat.simps [simp del]

definition str_int :: "int \<Rightarrow> ustr" where
  "str_int i = (if i < 0 then 45 # str_nat (nat (- i)) else str_nat (nat i))"

text \<open>\<open>str.isspace\<close> of one code point (the table of CPython 3), and \<open>str.strip()\<close>.\<close>

definition isspace :: "nat \<Rightarrow> bool" where
  "isspace c = ((9 \<le> c \<and> c \<le> 13) \<or> (28 \<le> c \<and> c \<le> 32) \<or> c = 133 \<or> c = 160
      \<or> c = 5760 \<or> (8192 \<le> c \<and> c \<le> 8202) \<or> c = 8232 \<or> c = 8233 \<or> c = 8239
      \<or> c = 8287 \<or> c = 12288)"

definition strip :: "ustr \<Rightarrow> ustr" where
  "strip s = rev (dropWhile isspace (rev (dropWhile isspace s)))"

text \<open>
  Case mapping. On ASCII \<open>str.lower()\<close> maps \<open>A-Z\<close> to \<open>a-z\<close>; Hangul syllables
  (U+AC00 to U+D7A3) have no case. What the runtime's Unicode tables do to any other code
  point is not part of this repository and is a parameter: \<open>U\<close> gives the lower-case
  expansion of a code point (\<open>str.lower\<close> may yield several code points; its one rule
  that looks at the neighbours, for the Greek capital sigma, is left out), \<open>T\<close> the simple
  lower-case mapping the \<open>re\<close> engine uses under \<open>re.I\<close>.
\<close>

definition ascii_lower :: "nat \<Rightarrow> nat" where
  "ascii_lower c = (if 65 \<le> c \<and> c \<le> 90 then c + 32 else c)"

definition hangul :: "nat \<Rightarrow> bool" where
  "hangul c = (44032 \<le> c \<and> c \<le> 55203)"

definition lower_cp :: "(nat \<Rightarrow> ustr) \<Rightarrow> nat \<Rightarrow> ustr" where
  "lower_cp U c = (if c < 128 then [ascii_lower c] else if hangul c then [c] else U c)"

definition lower :: "(nat \<Rightarrow> ustr) \<Rightarrow> ustr \<Rightarrow> ustr" where
  "lower U s = concat (map (lower_cp U) s)"

text \<open>\<open>k in txt\<close> on strings: \<open>k\<close> occurs in \<open>txt\<close> as a contiguous run.\<close>

fun starts_with :: "ustr \<Rightarrow> ustr \<Rightarrow> bool" where
  "starts_with [] txt = True"
| "starts_with (p # ps) [] = False"
| "starts_with (p # ps) (c # cs) = (p = c \<and> starts_with ps cs)"

fun py_in :: "ustr \<Rightarrow> ustr \<Rightarrow> bool" where
  "py_in k [] = (k = [])"
| "py_in k (c # cs) = (starts_with k (c # cs) \<or> py_in k cs)"

text \<open>
  \<open>re.search(r"(a|b|...)", text, re.I)\<close> for an alternation of literals. A cased pattern
  letter matches a code point whose simple lower case is the letter, or one of the two
  extra equivalents the engine adds for ASCII letters (U+0131 for \<open>i\<close>, U+017F for
  \<open>s\<close>); an uncased pattern code point (the Hangul syllables) matches itself only. The
  patterns of this repository hold lower-case ASCII letters and Hangul syllables.
\<close>

definition sre_lower :: "(nat \<Rightarrow> nat) \<Rightarrow> nat \<Rightarrow> nat" where
  "sre_lower T c = (if c < 128 then ascii_lower c else if hangul c then c else T c)"

definition ci_char :: "(nat \<Rightarrow> nat) \<Rightarrow> nat \<Rightarrow> nat \<Rightarrow> bool" where
  "ci_char T p c =
     (if p < 128 then sre_lower T c = ascii_lower p \<or> (p = 105 \<and> c = 305) \<or> (p = 115 \<and> c = 383)
      else c = p)"

fun ci_starts_with :: "(nat \<Rightarrow> nat) \<Rightarrow> ustr \<Rightarrow> ustr \<Rightarrow> bool" where
  "ci_starts_with T [] txt = True"
| "ci_starts_with T (p # ps) [] = False"
| "ci_starts_with T (p # ps) (c # cs) = (ci_char T p c \<and> ci_starts_with T ps cs)"

fun ci_search :: "(nat \<Rightarrow> nat) \<Rightarrow> ustr \<Rightarrow> ustr \<Rightarrow> bool" where
  "ci_search T k [] = (k = [])"
| "ci_search T k (c # cs) = (ci_starts_with T k (c # cs) \<or> ci_search T k cs)"

definition re_search_I :: "(nat \<Rightarrow> nat) \<Rightarrow> ustr list \<Rightarrow> ustr \<Rightarrow> bool" where
  "re_search_I T alts txt = list_ex (\<lambda>k. ci_search T k txt) alts"

text \<open>The Hangul keywords of the three classifiers, by code point.\<close>

definition kw_baepo :: ustr where "kw_baepo = [48176, 54252]"
definition kw_jaebaepo :: ustr where "kw_jaebaepo = [51116, 48176, 54252]"
definition kw_helseu :: ustr where "kw_helseu = [54764, 49828]"
definition kw_sangtae :: ustr where "kw_sangtae = [49345, 53468]"
definition kw_saraiss :: ustr where "kw_saraiss = [49332, 50500, 51080]"

section \<open>Results of the actions\<close>

text \<open>
  The dictionaries the actions return, one constructor per shape. The health probe returns
  \<open>{"ok": False, "reason": "missing_API_HEALTH"}\<close>, \<open>{"ok", "status", "body"}\<close> or
  \<open>{"ok": False, "error"}\<close>; the LLM action returns
  \<open>{"ok": False, "reason": "missing_ANTHROPIC_API_KEY"}\<close> or \<open>{"ok", "status", "model", "raw"}\<close>
  (\<open>"data"\<close> in main_langgraph.py), where the payload is the decoded JSON body or, when
  decoding raises, the status and the text.
\<close>

datatype health_result = HealthMissing | HealthChecked bool int ustr | HealthError ustr

datatype raw = Decoded ustr | Undecoded int ustr

datatype llm_result = LlmMissingKey | LlmAnswer bool int string raw

fun health_ok :: "health_result \<Rightarrow> bool" where
  "health_ok HealthMissing = False"
| "health_ok (HealthChecked ok sc body) = ok"
| "health_ok (HealthError e) = False"

fun llm_ok :: "llm_result \<Rightarrow> bool" where
  "llm_ok LlmMissingKey = False"
| "llm_ok (LlmAnswer ok sc model payload) = ok"

text \<open>current_app.py: one \<open>{"url", "status"}\<close> or \<open>{"url", "error"}\<close> per webhook.\<close>

datatype hook_result = HookStatus ustr int | HookError ustr ustr

text \<open>
  main_langgraph.py: the webhook action fills a dictionary \<open>hook1\<close>, \<open>hook2\<close> with a
  status code or the text \<open>error: ...\<close>; the keys are distinct, so the dictionary is the
  list of its items in insertion order.
\<close>

datatype hook_val = HookCode int | HookText ustr

datatype implement_res = HookDict "(ustr \<times> hook_val) list" | Skipped

datatype verify_res = VerifyHealth health_result | VerifyLlm llm_result

datatype heal_res = Healed "(ustr \<times> hook_val) list" health_result

record OrchestratorState_lg =
  prompt :: ustr
  intent_lg :: string
  user_lg :: "ustr option"
  plan_result :: "llm_result option"
  implement_result :: "implement_res option"
  verify_result :: "verify_res option"
  heal_result :: "heal_res option"

text \<open>
  The JSON rows posted to the log sink: current_app.py sends source, level, message and
  the meta \<open>{"intent", "user"}\<close>; main_langgraph.py sends the level and a meta that holds
  the intent, the prompt, the user and the four results of the final state.
\<close>

datatype log_payload =
    AppLog string string string "ustr option"
  | LgLog string OrchestratorState_lg

section \<open>Outbound HTTP\<close>

text \<open>
  Every outbound call either returns a response (status code, body text, and the decoded
  JSON body when \<open>r.json()\<close> succeeds) or raises. The network is an oracle with one
  stream of outcomes per kind of call: the \<open>k\<close>-th webhook POST, health GET, LLM POST and
  log POST of a request get the \<open>k\<close>-th outcome of their stream, so quantifying over the
  oracle covers every sequence of outcomes. The calls made are recorded in order.
\<close>

datatype outcome = Response int ustr "ustr option" | Raises ustr

record net =
  hook_reply :: "nat \<Rightarrow> outcome"
  health_reply :: "nat \<Rightarrow> outcome"
  llm_reply :: "nat \<Rightarrow> outcome"
  log_reply :: "nat \<Rightarrow> outcome"

datatype call =
    HookPost ustr
  | HealthGet ustr
  | LlmPost ustr string int ustr
  | LogPost ustr log_payload

fun is_hook :: "call \<Rightarrow> bool" where
  "is_hook (HookPost u) = True" | "is_hook c = False"

fun is_health :: "call \<Rightarrow> bool" where
  "is_health (HealthGet u) = True" | "is_health c = False"

fun is_llm :: "call \<Rightarrow> bool" where
  "is_llm (LlmPost u m t p) = True" | "is_llm c = False"

fun is_log :: "call \<Rightarrow> bool" where
  "is_log (LogPost u l) = True" | "is_log c = False"

definition hook_posts :: "call list \<Rightarrow> nat" where
  "hook_posts calls = length (filter is_hook calls)"

definition health_gets :: "call list \<Rightarrow> nat" where
  "health_gets calls = length (filter is_health calls)"

definition llm_posts :: "call list \<Rightarrow> nat" where
  "llm_posts calls = length (filter is_llm calls)"

definition log_posts :: "call list \<Rightarrow> nat" where
  "log_posts calls = length (filter is_log calls)"

text \<open>The model named in each LLM call of a trace.\<close>

fun models_asked :: "call list \<Rightarrow> string list" where
  "models_asked [] = []"
| "models_asked (LlmPost u m t p # calls) = m # models_asked calls"
| "models_asked (c # calls) = models_asked calls"

text \<open>
  What can leave a handler: the HTTP error it raises itself, an exception of the HTTP
  client that nothing caught, the framework's error for a run over its step limit, and
  the error of reading an attribute that an object does not have.
\<close>

datatype exn = HTTPException int string | HttpxError ustr | RecursionLimit | AttributeError

section \<open>main.py: the plan, implement, verify, heal graph\<close>

record main_config =
  VERCEL_HOOK_1 :: ustr
  VERCEL_HOOK_2 :: ustr
  HEALTH_URL :: "ustr option"
  PORT :: int

datatype Intent = DEPLOY | HEALTH | OTHER

fun Intent_value :: "Intent \<Rightarrow> string" where
  "Intent_value DEPLOY = ''deploy''"
| "Intent_value HEALTH = ''health''"
| "Intent_value OTHER = ''other''"

record OrchestratorState =
  instruction :: ustr
  intent :: "Intent option"
  plan :: "ustr option"
  retries :: int
  verify_passed :: "bool option"
  logs :: "ustr list"

definition classify_main :: "(nat \<Rightarrow> ustr) \<Rightarrow> ustr \<Rightarrow> Intent" where
  "classify_main U text =
     (let txt = lower U text
      in if list_ex (\<lambda>k. py_in k txt) [kw_baepo, kw_jaebaepo, ascii ''deploy''] then DEPLOY
         else if list_ex (\<lambda>k. py_in k txt) [kw_helseu, ascii ''health'', kw_sangtae, ascii ''alive'']
         then HEALTH
         else OTHER)"

definition plan_node :: "(nat \<Rightarrow> ustr) \<Rightarrow> OrchestratorState \<Rightarrow> OrchestratorState" where
  "plan_node U state =
     (let intent0 = classify_main U (instruction state);
          plan0 = ascii ''intent='' @ ascii (Intent_value intent0) @ ascii ''; steps=[implement''
                  @ [8594] @ ascii ''verify'' @ [8594] @ ascii ''(heal if fail)]''
      in state\<lparr>intent := Some intent0, plan := Some plan0,
               logs := logs state @ [ascii ''[plan] '' @ plan0]\<rparr>)"

text \<open>The loop of \<open>implement_node\<close> over \<open>enumerate([VERCEL_HOOK_1, VERCEL_HOOK_2], start=1)\<close>.\<close>

fun post_hooks :: "net \<Rightarrow> (nat \<times> ustr) list \<Rightarrow> OrchestratorState \<times> call list
    \<Rightarrow> OrchestratorState \<times> call list" where
  "post_hooks nw [] (state, calls) = (state, calls)"
| "post_hooks nw ((idx, hook) # rest) (state, calls) =
     (if hook = [] then post_hooks nw rest (state, calls)
      else case hook_reply nw (hook_posts calls) of
        Response sc body js \<Rightarrow>
          post_hooks nw rest
            (state\<lparr>logs := logs state @
               [ascii ''[implement] vercel_hook_'' @ str_nat idx @ ascii '' status='' @ str_int sc]\<rparr>,
             calls @ [HookPost hook])
      | Raises e \<Rightarrow>
          post_hooks nw rest
            (state\<lparr>logs := logs state @
               [ascii ''[implement] vercel_hook_'' @ str_nat idx @ ascii '' error='' @ e]\<rparr>,
             calls @ [HookPost hook]))"

definition implement_node :: "main_config \<Rightarrow> net \<Rightarrow> OrchestratorState \<times> call list
    \<Rightarrow> OrchestratorState \<times> call list" where
  "implement_node cfg nw w =
     (case w of (state, calls) \<Rightarrow>
        if intent state = Some HEALTH
        then (state\<lparr>logs := logs state @ [ascii ''[implement] skip (health only)'']\<rparr>, calls)
        else post_hooks nw [(1, VERCEL_HOOK_1 cfg), (2, VERCEL_HOOK_2 cfg)] (state, calls))"

definition health_url :: "main_config \<Rightarrow> ustr" where
  "health_url cfg =
     (case HEALTH_URL cfg of
        None \<Rightarrow> ascii ''http://127.0.0.1:'' @ str_int (PORT cfg) @ ascii ''/health''
      | Some u \<Rightarrow> if u = [] then ascii ''http://127.0.0.1:'' @ str_int (PORT cfg) @ ascii ''/health''
                  else u)"

definition verify_node :: "main_config \<Rightarrow> net \<Rightarrow> OrchestratorState \<times> call list
    \<Rightarrow> OrchestratorState \<times> call list" where
  "verify_node cfg nw w =
     (case w of (state, calls) \<Rightarrow>
        (case health_reply nw (health_gets calls) of
           Response sc body js \<Rightarrow>
             (state\<lparr>verify_passed := Some (sc = 200),
                     logs := logs state @
                       [ascii ''[verify] GET '' @ health_url cfg @ ascii '' -> '' @ str_int sc]\<rparr>,
              calls @ [HealthGet (health_url cfg)])
         | Raises e \<Rightarrow>
             (state\<lparr>verify_passed := Some False,
                     logs := logs state @ [ascii ''[verify] error='' @ e]\<rparr>,
              calls @ [HealthGet (health_url cfg)])))"

definition heal_node :: "main_config \<Rightarrow> net \<Rightarrow> OrchestratorState \<times> call list
    \<Rightarrow> OrchestratorState \<times> call list" where
  "heal_node cfg nw w =
     (case w of (state, calls) \<Rightarrow>
        let state1 = state\<lparr>retries := retries state + 1\<rparr>;
            state2 = state1\<lparr>logs := logs state1 @
                       [ascii ''[heal] attempt='' @ str_int (retries state1) @ [32, 8594, 32]
                        @ ascii ''redeploy'']\<rparr>
        in implement_node cfg nw (state2, calls))"

text \<open>
  The graph: \<open>START \<rightarrow> plan \<rightarrow> implement \<rightarrow> verify\<close>, the conditional edge of
  \<open>verify_router\<close> out of \<open>verify\<close>, and \<open>heal \<rightarrow> verify\<close>. \<open>None\<close> is \<open>END\<close>.
\<close>

datatype node = Plan | Implement | Verify | Heal

definition verify_router :: "OrchestratorState \<Rightarrow> node option" where
  "verify_router state =
     (if intent state = Some HEALTH
      then (if verify_passed state \<noteq> Some False then None else Some Heal)
      else if verify_passed state = Some True then None
      else if retries state < 1 then Some Heal else None)"

fun run_node :: "main_config \<Rightarrow> (nat \<Rightarrow> ustr) \<Rightarrow> net \<Rightarrow> node \<Rightarrow> OrchestratorState \<times> call list
    \<Rightarrow> OrchestratorState \<times> call list" where
  "run_node cfg U nw Plan (state, calls) = (plan_node U state, calls)"
| "run_node cfg U nw Implement w = implement_node cfg nw w"
| "run_node cfg U nw Verify w = verify_node cfg nw w"
| "run_node cfg U nw Heal w = heal_node cfg nw w"

fun edge :: "node \<Rightarrow> OrchestratorState \<Rightarrow> node option" where
  "edge Plan state = Some Implement"
| "edge Implement state = Some Verify"
| "edge Verify state = verify_router state"
| "edge Heal state = Some Verify"

text \<open>
  \<open>graph.ainvoke\<close> is the framework's: it runs one node per step on the state and follows
  the edges until \<open>END\<close>. A run that has not ended within the recursion limit (25 steps
  unless configured) is stopped by an exception. The framework needs one step more than
  the nodes it runs, the step in which it finds no node left: a run of \<open>n\<close> nodes ends
  normally under a limit above \<open>n\<close> only. The limit is the fuel of the run, and a run that
  is stopped keeps the state and the calls it had made.
\<close>

datatype run_result =
    Finished OrchestratorState "call list"
  | Stopped OrchestratorState "call list"

fun ainvoke :: "main_config \<Rightarrow> (nat \<Rightarrow> ustr) \<Rightarrow> net \<Rightarrow> nat \<Rightarrow> node
    \<Rightarrow> OrchestratorState \<times> call list \<Rightarrow> run_result" where
  "ainvoke cfg U nw 0 nd (state, calls) = Stopped state calls"
| "ainvoke cfg U nw (Suc limit) nd (state, calls) =
     (case run_node cfg U nw nd (state, calls) of
        (state', calls') \<Rightarrow>
          (case edge nd state' of
             None \<Rightarrow> if limit = 0 then Stopped state' calls' else Finished state' calls'
           | Some nd' \<Rightarrow> ainvoke cfg U nw limit nd' (state', calls')))"

fun final_state :: "run_result \<Rightarrow> OrchestratorState" where
  "final_state (Finished state calls) = state"
| "final_state (Stopped state calls) = state"

fun calls_made :: "run_result \<Rightarrow> call list" where
  "calls_made (Finished state calls) = calls"
| "calls_made (Stopped state calls) = calls"

fun finished :: "run_result \<Rightarrow> bool" where
  "finished (Finished state calls) = True"
| "finished (Stopped state calls) = False"

definition init_state :: "ustr \<Rightarrow> OrchestratorState" where
  "init_state text = \<lparr>instruction = text, intent = None, plan = None, retries = 0,
                      verify_passed = None, logs = []\<rparr>"

definition graph_run :: "main_config \<Rightarrow> (nat \<Rightarrow> ustr) \<Rightarrow> net \<Rightarrow> nat \<Rightarrow> ustr \<Rightarrow> run_result" where
  "graph_run cfg U nw limit text = ainvoke cfg U nw limit Plan (init_state text, [])"

text \<open>
  \<open>POST /orchestrate\<close> of main.py: no check of the text. \<open>graph.ainvoke\<close> gives the
  values of the final state back as a dictionary, and the handler reads them as attributes
  (\<open>final.instruction\<close>), which a dictionary does not have: after a run that ended the
  handler raises \<open>AttributeError\<close>, and a run stopped by the recursion limit propagates
  the framework's exception. Either way the calls of the run have been made.
\<close>

definition orchestrate_main :: "main_config \<Rightarrow> (nat \<Rightarrow> ustr) \<Rightarrow> net \<Rightarrow> nat \<Rightarrow> ustr
    \<Rightarrow> (exn + OrchestratorState) \<times> call list" where
  "orchestrate_main cfg U nw limit text =
     (case graph_run cfg U nw limit text of
        Finished state calls \<Rightarrow> (Inl AttributeError, calls)
      | Stopped state calls \<Rightarrow> (Inl RecursionLimit, calls))"

text \<open>The test of \<open>verify_node\<close> on a probe: it answered, and the status is exactly 200.\<close>

definition answers_200 :: "outcome \<Rightarrow> bool" where
  "answers_200 out = (case out of Response sc body js \<Rightarrow> sc = 200 | Raises e \<Rightarrow> False)"

text \<open>
  The number of webhook targets that are configured: one redeploy action posts to each of
  them once.
\<close>

definition configured_hooks :: "main_config \<Rightarrow> nat" where
  "configured_hooks cfg = length (filter (\<lambda>h. h \<noteq> []) [VERCEL_HOOK_1 cfg, VERCEL_HOOK_2 cfg])"

section \<open>current_app.py\<close>

text \<open>
  The configuration read from the environment at import, shared with main_langgraph.py
  (which also reads the name of the log table). \<open>VERCEL_HOOKS\<close> is built from the two
  webhook variables, stripped, keeping the non-empty ones.
\<close>

record config =
  SUPABASE_URL :: ustr
  SUPABASE_KEY :: ustr
  ANTHROPIC_API_KEY :: ustr
  ANTHROPIC_API_URL :: ustr
  ANTHROPIC_API_VERSION :: ustr
  LLM_PROMOTION_THRESHOLD :: int
  LLM_MAX_TOKENS :: int
  VERCEL_HOOKS :: "ustr list"
  API_HEALTH :: ustr
  AI_LOGS_TABLE :: ustr

definition vercel_hooks_of :: "ustr \<Rightarrow> ustr \<Rightarrow> ustr list" where
  "vercel_hooks_of h1 h2 = filter (\<lambda>v. v \<noteq> []) [strip h1, strip h2]"

record OrchestrateIn =
  text_in :: ustr
  user_in :: "ustr option"
  critical_in :: "bool option"

text \<open>
  \<open>log_supabase\<close>: nothing without URL and key; otherwise one POST, whose response is
  not looked at and whose exception is caught and dropped.
\<close>

definition log_supabase_app :: "config \<Rightarrow> net \<Rightarrow> string \<Rightarrow> string \<Rightarrow> string \<times> ustr option
    \<Rightarrow> call list \<Rightarrow> call list" where
  "log_supabase_app cfg nw level message meta calls =
     (if SUPABASE_URL cfg = [] \<or> SUPABASE_KEY cfg = [] then calls
      else case log_reply nw (log_posts calls) of
        Response sc body js \<Rightarrow>
          calls @ [LogPost (SUPABASE_URL cfg @ ascii ''/rest/v1/ai_logs'')
                     (AppLog level message (fst meta) (snd meta))]
      | Raises e \<Rightarrow>
          calls @ [LogPost (SUPABASE_URL cfg @ ascii ''/rest/v1/ai_logs'')
                     (AppLog level message (fst meta) (snd meta))])"

text \<open>
  \<open>call_anthropic\<close>: the model is chosen from the critical flag and the length of the
  prompt; the POST is outside any \<open>try\<close>, only the decoding of the body is guarded.
\<close>

definition choose_model :: "config \<Rightarrow> ustr \<Rightarrow> bool \<Rightarrow> string" where
  "choose_model cfg prm crit =
     (if crit \<or> int (length prm) > LLM_PROMOTION_THRESHOLD cfg
      then ''claude-3-5-sonnet-20240620'' else ''claude-3-5-haiku-20240307'')"

definition call_anthropic_app :: "config \<Rightarrow> net \<Rightarrow> ustr \<Rightarrow> bool \<Rightarrow> call list
    \<Rightarrow> (exn + llm_result) \<times> call list" where
  "call_anthropic_app cfg nw prm crit calls =
     (if ANTHROPIC_API_KEY cfg = [] then (Inr LlmMissingKey, calls)
      else case llm_reply nw (llm_posts calls) of
        Raises e \<Rightarrow>
          (Inl (HttpxError e),
           calls @ [LlmPost (ANTHROPIC_API_URL cfg @ ascii ''/v1/messages'')
                      (choose_model cfg prm crit) (LLM_MAX_TOKENS cfg) prm])
      | Response sc body js \<Rightarrow>
          (Inr (LlmAnswer (sc = 200 \<or> sc = 201) sc (choose_model cfg prm crit)
                  (case js of Some d \<Rightarrow> Decoded d | None \<Rightarrow> Undecoded sc body)),
           calls @ [LlmPost (ANTHROPIC_API_URL cfg @ ascii ''/v1/messages'')
                      (choose_model cfg prm crit) (LLM_MAX_TOKENS cfg) prm]))"

text \<open>\<open>call_vercel_hooks\<close>: one POST per configured webhook, each in its own \<open>try\<close>.\<close>

fun hooks_loop_app :: "net \<Rightarrow> ustr list \<Rightarrow> hook_result list \<times> call list
    \<Rightarrow> hook_result list \<times> call list" where
  "hooks_loop_app nw [] (results, calls) = (results, calls)"
| "hooks_loop_app nw (url # rest) (results, calls) =
     (case hook_reply nw (hook_posts calls) of
        Response sc body js \<Rightarrow>
          hooks_loop_app nw rest (results @ [HookStatus url sc], calls @ [HookPost url])
      | Raises e \<Rightarrow>
          hooks_loop_app nw rest (results @ [HookError url e], calls @ [HookPost url]))"

definition call_vercel_hooks_app :: "config \<Rightarrow> net \<Rightarrow> call list \<Rightarrow> hook_result list \<times> call list" where
  "call_vercel_hooks_app cfg nw calls = hooks_loop_app nw (VERCEL_HOOKS cfg) ([], calls)"

definition call_health_app :: "config \<Rightarrow> net \<Rightarrow> call list \<Rightarrow> health_result \<times> call list" where
  "call_health_app cfg nw calls =
     (if API_HEALTH cfg = [] then (HealthMissing, calls)
      else case health_reply nw (health_gets calls) of
        Response sc body js \<Rightarrow>
          (HealthChecked (sc = 200) sc (take 400 body), calls @ [HealthGet (API_HEALTH cfg)])
      | Raises e \<Rightarrow> (HealthError e, calls @ [HealthGet (API_HEALTH cfg)]))"

text \<open>The quick intent routing of \<open>orchestrate\<close>, on the stripped text.\<close>

definition quick_intent :: "(nat \<Rightarrow> nat) \<Rightarrow> ustr \<Rightarrow> string" where
  "quick_intent T txt =
     (if re_search_I T [kw_baepo, ascii ''redeploy'', ascii ''deploy'', kw_jaebaepo] txt
      then ''deploy_frontend''
      else if re_search_I T [kw_helseu, ascii ''health'', kw_sangtae, ascii ''status'', kw_saraiss] txt
      then ''health_check''
      else ''llm_plan'')"

datatype step = DeployStep "hook_result list" | HealthStep health_result | LlmStep llm_result

record app_reply =
  ok :: bool
  result_intent :: string
  result_steps :: "step list"

text \<open>
  \<open>POST /orchestrate\<close>: an exception that leaves the handler (the 400 it raises itself,
  or one that an action lets through) is the \<open>Inl\<close> result.
\<close>

definition orchestrate_app :: "config \<Rightarrow> (nat \<Rightarrow> nat) \<Rightarrow> net \<Rightarrow> OrchestrateIn
    \<Rightarrow> (exn + app_reply) \<times> call list" where
  "orchestrate_app cfg T nw body =
     (if strip (text_in body) = [] then (Inl (HTTPException 400 ''text is required''), [])
      else if quick_intent T (strip (text_in body)) = ''deploy_frontend'' then
        (case call_vercel_hooks_app cfg nw [] of
           (vercels, calls1) \<Rightarrow>
             (case call_health_app cfg nw calls1 of
                (hl, calls2) \<Rightarrow>
                  (Inr \<lparr>ok = True, result_intent = ''deploy_frontend'',
                        result_steps = [DeployStep vercels, HealthStep hl]\<rparr>,
                   log_supabase_app cfg nw ''info'' ''orchestrate''
                     (''deploy_frontend'', user_in body) calls2)))
      else if quick_intent T (strip (text_in body)) = ''health_check'' then
        (case call_health_app cfg nw [] of
           (hl, calls1) \<Rightarrow>
             (Inr \<lparr>ok = True, result_intent = ''health_check'', result_steps = [HealthStep hl]\<rparr>,
              log_supabase_app cfg nw ''info'' ''orchestrate''
                (''health_check'', user_in body) calls1))
      else
        (case call_anthropic_app cfg nw (strip (text_in body)) (critical_in body = Some True) [] of
           (Inl e, calls1) \<Rightarrow> (Inl e, calls1)
         | (Inr ai, calls1) \<Rightarrow>
             (Inr \<lparr>ok = True, result_intent = ''llm_plan'', result_steps = [LlmStep ai]\<rparr>,
              log_supabase_app cfg nw ''info'' ''orchestrate''
                (''llm_plan'', user_in body) calls1)))"

section \<open>main_langgraph.py\<close>

record NLRequest =
  prompt_rq :: ustr
  user_rq :: "ustr option"
  critical_rq :: "bool option"

text \<open>
  \<open>call_anthropic\<close> as in current_app.py, with the fallback text cut to 400 characters;
  the POST is outside any \<open>try\<close> here as well.
\<close>

definition call_anthropic_lg :: "config \<Rightarrow> net \<Rightarrow> ustr \<Rightarrow> bool \<Rightarrow> call list
    \<Rightarrow> (exn + llm_result) \<times> call list" where
  "call_anthropic_lg cfg nw prm crit calls =
     (if ANTHROPIC_API_KEY cfg = [] then (Inr LlmMissingKey, calls)
      else case llm_reply nw (llm_posts calls) of
        Raises e \<Rightarrow>
          (Inl (HttpxError e),
           calls @ [LlmPost (ANTHROPIC_API_URL cfg @ ascii ''/v1/messages'')
                      (choose_model cfg prm crit) (LLM_MAX_TOKENS cfg) prm])
      | Response sc body js \<Rightarrow>
          (Inr (LlmAnswer (sc = 200 \<or> sc = 201) sc (choose_model cfg prm crit)
                  (case js of Some d \<Rightarrow> Decoded d | None \<Rightarrow> Undecoded sc (take 400 body))),
           calls @ [LlmPost (ANTHROPIC_API_URL cfg @ ascii ''/v1/messages'')
                      (choose_model cfg prm crit) (LLM_MAX_TOKENS cfg) prm]))"

text \<open>The loop of \<open>call_vercel_hooks\<close> over \<open>enumerate(VERCEL_HOOKS, start=1)\<close>.\<close>

fun hooks_loop_lg :: "net \<Rightarrow> nat \<Rightarrow> ustr list \<Rightarrow> (ustr \<times> hook_val) list \<times> call list
    \<Rightarrow> (ustr \<times> hook_val) list \<times> call list" where
  "hooks_loop_lg nw idx [] (results, calls) = (results, calls)"
| "hooks_loop_lg nw idx (hook # rest) (results, calls) =
     (case hook_reply nw (hook_posts calls) of
        Response sc body js \<Rightarrow>
          hooks_loop_lg nw (Suc idx) rest
            (results @ [(ascii ''hook'' @ str_nat idx, HookCode sc)], calls @ [HookPost hook])
      | Raises e \<Rightarrow>
          hooks_loop_lg nw (Suc idx) rest
            (results @ [(ascii ''hook'' @ str_nat idx, HookText (ascii ''error: '' @ e))],
             calls @ [HookPost hook]))"

definition call_vercel_hooks_lg :: "config \<Rightarrow> net \<Rightarrow> call list
    \<Rightarrow> (ustr \<times> hook_val) list \<times> call list" where
  "call_vercel_hooks_lg cfg nw calls = hooks_loop_lg nw 1 (VERCEL_HOOKS cfg) ([], calls)"

definition call_health_lg :: "config \<Rightarrow> net \<Rightarrow> call list \<Rightarrow> health_result \<times> call list" where
  "call_health_lg cfg nw calls =
     (if API_HEALTH cfg = [] then (HealthMissing, calls)
      else case health_reply nw (health_gets calls) of
        Response sc body js \<Rightarrow>
          (HealthChecked (sc = 200) sc (take 400 body), calls @ [HealthGet (API_HEALTH cfg)])
      | Raises e \<Rightarrow> (HealthError e, calls @ [HealthGet (API_HEALTH cfg)]))"

text \<open>
  \<open>log_supabase\<close> of this module: nothing without URL and key; otherwise one POST with no
  \<open>try\<close> around it, so that an exception of the POST leaves the function.
\<close>

definition log_supabase_lg :: "config \<Rightarrow> net \<Rightarrow> string \<Rightarrow> OrchestratorState_lg \<Rightarrow> call list
    \<Rightarrow> (exn + unit) \<times> call list" where
  "log_supabase_lg cfg nw action meta calls =
     (if SUPABASE_URL cfg = [] \<or> SUPABASE_KEY cfg = [] then (Inr (), calls)
      else case log_reply nw (log_posts calls) of
        Response sc body js \<Rightarrow>
          (Inr (), calls @ [LogPost (SUPABASE_URL cfg @ ascii ''/rest/v1/'' @ AI_LOGS_TABLE cfg)
                              (LgLog action meta)])
      | Raises e \<Rightarrow>
          (Inl (HttpxError e),
           calls @ [LogPost (SUPABASE_URL cfg @ ascii ''/rest/v1/'' @ AI_LOGS_TABLE cfg)
                      (LgLog action meta)]))"

text \<open>
  The nodes. Each returns the state and the name of the node to run next; \<open>None\<close> is the
  empty name the terminal node returns.
\<close>

datatype node_lg = N_plan | N_implement | N_verify | N_heal | N_done

definition node_plan :: "config \<Rightarrow> net \<Rightarrow> OrchestratorState_lg \<Rightarrow> call list
    \<Rightarrow> (exn + OrchestratorState_lg \<times> node_lg option) \<times> call list" where
  "node_plan cfg nw state calls =
     (case call_anthropic_lg cfg nw
             (ascii ''Plan for intent: '' @ ascii (intent_lg state) @ [10] @ ascii ''Instruction: ''
              @ prompt state) False calls of
        (Inl e, calls1) \<Rightarrow> (Inl e, calls1)
      | (Inr pl, calls1) \<Rightarrow>
          (Inr (state\<lparr>plan_result := Some pl\<rparr>,
                if intent_lg state = ''deploy'' then Some N_implement else Some N_verify),
           calls1))"

definition node_implement :: "config \<Rightarrow> net \<Rightarrow> OrchestratorState_lg \<Rightarrow> call list
    \<Rightarrow> (exn + OrchestratorState_lg \<times> node_lg option) \<times> call list" where
  "node_implement cfg nw state calls =
     (if intent_lg state = ''deploy'' then
        (case call_vercel_hooks_lg cfg nw calls of
           (implement, calls1) \<Rightarrow>
             (Inr (state\<lparr>implement_result := Some (HookDict implement)\<rparr>, Some N_verify), calls1))
      else (Inr (state\<lparr>implement_result := Some Skipped\<rparr>, Some N_verify), calls))"

definition node_verify :: "config \<Rightarrow> net \<Rightarrow> OrchestratorState_lg \<Rightarrow> call list
    \<Rightarrow> (exn + OrchestratorState_lg \<times> node_lg option) \<times> call list" where
  "node_verify cfg nw state calls =
     (if intent_lg state = ''deploy'' then
        (case call_health_lg cfg nw calls of
           (verify, calls1) \<Rightarrow>
             (Inr (state\<lparr>verify_result := Some (VerifyHealth verify)\<rparr>,
                   if \<not> health_ok verify then Some N_heal else Some N_done), calls1))
      else if intent_lg state = ''health'' then
        (case call_health_lg cfg nw calls of
           (verify, calls1) \<Rightarrow>
             (Inr (state\<lparr>verify_result := Some (VerifyHealth verify)\<rparr>, Some N_done), calls1))
      else
        (case call_anthropic_lg cfg nw (prompt state) (length (prompt state) > 200) calls of
           (Inl e, calls1) \<Rightarrow> (Inl e, calls1)
         | (Inr llm, calls1) \<Rightarrow>
             (Inr (state\<lparr>verify_result := Some (VerifyLlm llm)\<rparr>, Some N_done), calls1)))"

definition node_heal :: "config \<Rightarrow> net \<Rightarrow> OrchestratorState_lg \<Rightarrow> call list
    \<Rightarrow> (exn + OrchestratorState_lg \<times> node_lg option) \<times> call list" where
  "node_heal cfg nw state calls =
     (case call_vercel_hooks_lg cfg nw calls of
        (heal, calls1) \<Rightarrow>
          (case call_health_lg cfg nw calls1 of
             (verify2, calls2) \<Rightarrow>
               (Inr (state\<lparr>heal_result := Some (Healed heal verify2)\<rparr>, Some N_done), calls2)))"

definition node_done :: "config \<Rightarrow> net \<Rightarrow> OrchestratorState_lg \<Rightarrow> call list
    \<Rightarrow> (exn + OrchestratorState_lg \<times> node_lg option) \<times> call list" where
  "node_done cfg nw state calls = (Inr (state, None), calls)"

fun run_node_lg :: "node_lg \<Rightarrow> config \<Rightarrow> net \<Rightarrow> OrchestratorState_lg \<Rightarrow> call list
    \<Rightarrow> (exn + OrchestratorState_lg \<times> node_lg option) \<times> call list" where
  "run_node_lg N_plan = node_plan"
| "run_node_lg N_implement = node_implement"
| "run_node_lg N_verify = node_verify"
| "run_node_lg N_heal = node_heal"
| "run_node_lg N_done = node_done"

text \<open>
  The compiled graph is called on the state and gives back the final state. It is the
  framework's; it is modelled as running the node \<open>plan\<close> first and then the node each
  node names, until the empty name, which is the reading the nodes are written for. An
  exception of a node leaves the runner. The steps are bounded by a limit; the graph has
  no cycle, and five steps reach the end.
\<close>

fun graph_runner :: "config \<Rightarrow> net \<Rightarrow> nat \<Rightarrow> node_lg \<Rightarrow> OrchestratorState_lg \<Rightarrow> call list
    \<Rightarrow> (exn + OrchestratorState_lg) \<times> call list" where
  "graph_runner cfg nw 0 nd state calls = (Inl RecursionLimit, calls)"
| "graph_runner cfg nw (Suc limit) nd state calls =
     (case run_node_lg nd cfg nw state calls of
        (Inl e, calls1) \<Rightarrow> (Inl e, calls1)
      | (Inr (state1, None), calls1) \<Rightarrow> (Inr state1, calls1)
      | (Inr (state1, Some nd1), calls1) \<Rightarrow> graph_runner cfg nw limit nd1 state1 calls1)"

definition classify_lg :: "(nat \<Rightarrow> nat) \<Rightarrow> ustr \<Rightarrow> string" where
  "classify_lg T prm =
     (if re_search_I T [kw_baepo, ascii ''deploy'', kw_jaebaepo] prm then ''deploy''
      else if re_search_I T [kw_helseu, ascii ''health'', kw_sangtae] prm then ''health''
      else ''other'')"

record lg_reply =
  ok_lg :: bool
  reply_intent :: string
  reply_plan :: "llm_result option"
  reply_implement :: "implement_res option"
  reply_verify :: "verify_res option"
  reply_heal :: "heal_res option"

definition orchestrate_lg :: "config \<Rightarrow> (nat \<Rightarrow> nat) \<Rightarrow> net \<Rightarrow> nat \<Rightarrow> NLRequest
    \<Rightarrow> (exn + lg_reply) \<times> call list" where
  "orchestrate_lg cfg T nw limit req =
     (if strip (prompt_rq req) = [] then (Inl (HTTPException 400 ''prompt is required''), [])
      else
        (case graph_runner cfg nw limit N_plan
                \<lparr>prompt = strip (prompt_rq req), intent_lg = classify_lg T (strip (prompt_rq req)),
                 user_lg = user_rq req, plan_result = None, implement_result = None,
                 verify_result = None, heal_result = None\<rparr> [] of
           (Inl e, calls1) \<Rightarrow> (Inl e, calls1)
         | (Inr final, calls1) \<Rightarrow>
             (case log_supabase_lg cfg nw ''orchestrate'' final calls1 of
                (Inl e, calls2) \<Rightarrow> (Inl e, calls2)
              | (Inr u, calls2) \<Rightarrow>
                  (Inr \<lparr>ok_lg = True, reply_intent = classify_lg T (strip (prompt_rq req)),
                        reply_plan = plan_result final, reply_implement = implement_result final,
                        reply_verify = verify_result final, reply_heal = heal_result final\<rparr>,
                   calls2))))"

section \<open>What the specification says of a text\<close>

text \<open>
  Stated apart from the classifiers: a text contains a keyword regardless of casing when
  the keyword occurs in it after both are put in lower case letter by letter (ASCII
  letters; Hangul has no case). A plain word is a non-empty word of lower-case ASCII
  letters and Hangul syllables, as every deploy keyword of the three classifiers is.
\<close>

definition mentions :: "ustr \<Rightarrow> ustr \<Rightarrow> bool" where
  "mentions k text = py_in (map ascii_lower k) (map ascii_lower text)"

definition plain_word :: "ustr \<Rightarrow> bool" where
  "plain_word k = (k \<noteq> [] \<and> list_all (\<lambda>p. (97 \<le> p \<and> p \<le> 122) \<or> hangul p) k)"

text \<open>
  The code points on which the classifiers can be compared with that notion whatever the
  runtime's case tables are: those of ASCII and Hangul, and those that the tables send to
  a single code point outside ASCII and Hangul and that are not one of the two extra
  equivalents of the \<open>re\<close> engine. Two code points are alike when they are equal or both
  outside ASCII and Hangul: no keyword tells them apart.
\<close>

definition plain_cp :: "nat \<Rightarrow> bool" where
  "plain_cp c = (c < 128 \<or> hangul c)"

definition neutral :: "(nat \<Rightarrow> ustr) \<Rightarrow> (nat \<Rightarrow> nat) \<Rightarrow> nat \<Rightarrow> bool" where
  "neutral U T c =
     (plain_cp c \<or>
      ((case U c of [x] \<Rightarrow> \<not> plain_cp x | other \<Rightarrow> False)
       \<and> \<not> plain_cp (T c) \<and> c \<noteq> 305 \<and> c \<noteq> 383))"

definition alike :: "nat \<Rightarrow> nat \<Rightarrow> bool" where
  "alike x y = (x = y \<or> (\<not> plain_cp x \<and> \<not> plain_cp y))"

text \<open>
  A successful probe in the words of the specification (section 4.3): "success is a
  200-range status".
\<close>

definition spec_probe_success :: "outcome \<Rightarrow> bool" where
  "spec_probe_success out =
     (case out of Response sc body js \<Rightarrow> 200 \<le> sc \<and> sc < 300 | Raises e \<Rightarrow> False)"

section \<open>Concrete inputs\<close>

text \<open>
  The inputs at which the theorems below are evaluated. The case tables used there leave
  every code point outside ASCII and Hangul as it is.
\<close>

definition plain_U :: "nat \<Rightarrow> ustr" where
  "plain_U c = [c]"

definition plain_T :: "nat \<Rightarrow> nat" where
  "plain_T c = c"

text \<open>
  Configurations: one webhook and the default health URL for main.py; everything
  configured for the other two modules; the same with both webhook variables blank.
\<close>

definition demo_main_config :: main_config where
  "demo_main_config = \<lparr>VERCEL_HOOK_1 = ascii ''https://hooks.example/one'', VERCEL_HOOK_2 = [],
                        HEALTH_URL = None, PORT = 8000\<rparr>"

definition demo_config :: config where
  "demo_config = \<lparr>SUPABASE_URL = ascii ''https://db.example'', SUPABASE_KEY = ascii ''service-key'',
     ANTHROPIC_API_KEY = ascii ''api-key'', ANTHROPIC_API_URL = ascii ''https://api.anthropic.com'',
     ANTHROPIC_API_VERSION = ascii ''2023-06-01'', LLM_PROMOTION_THRESHOLD = 120,
     LLM_MAX_TOKENS = 512, VERCEL_HOOKS = [ascii ''https://hooks.example/one''],
     API_HEALTH = ascii ''https://app.example/health'', AI_LOGS_TABLE = ascii ''ai_logs''\<rparr>"

definition no_hooks_config :: config where
  "no_hooks_config = demo_config\<lparr>VERCEL_HOOKS := vercel_hooks_of [] (ascii ''  '')\<rparr>"

text \<open>
  Networks: every endpoint answers; every call times out; the health endpoint answers 503
  for ever; the health endpoint answers 204 for ever; the health endpoint answers 503
  twice and 200 from then on; only the log sink times out; only the LLM endpoint times out.
\<close>

definition calm_net :: net where
  "calm_net = \<lparr>hook_reply = (\<lambda>k. Response 201 [] None),
               health_reply = (\<lambda>k. Response 200 (ascii ''ok'') None),
               llm_reply = (\<lambda>k. Response 200 (ascii ''{}'') (Some (ascii ''{}''))),
               log_reply = (\<lambda>k. Response 201 [] None)\<rparr>"

definition timeout_net :: net where
  "timeout_net = \<lparr>hook_reply = (\<lambda>k. Raises (ascii ''timed out'')),
                  health_reply = (\<lambda>k. Raises (ascii ''timed out'')),
                  llm_reply = (\<lambda>k. Raises (ascii ''timed out'')),
                  log_reply = (\<lambda>k. Raises (ascii ''timed out''))\<rparr>"

definition unhealthy_net :: net where
  "unhealthy_net = calm_net\<lparr>health_reply := (\<lambda>k. Response 503 [] None)\<rparr>"

definition no_content_net :: net where
  "no_content_net = calm_net\<lparr>health_reply := (\<lambda>k. Response 204 [] None)\<rparr>"

definition flaky_net :: net where
  "flaky_net = calm_net\<lparr>health_reply := (\<lambda>k. if k < 2 then Response 503 [] None
                                                 else Response 200 (ascii ''ok'') None)\<rparr>"

definition log_down_net :: net where
  "log_down_net = calm_net\<lparr>log_reply := (\<lambda>k. Raises (ascii ''timed out''))\<rparr>"

definition llm_down_net :: net where
  "llm_down_net = calm_net\<lparr>llm_reply := (\<lambda>k. Raises (ascii ''timed out''))\<rparr>"

text \<open>Requests and texts.\<close>

definition health_request :: OrchestrateIn where
  "health_request = \<lparr>text_in = ascii '' Health? '', user_in = None, critical_in = Some False\<rparr>"

definition health_request_lg :: NLRequest where
  "health_request_lg = \<lparr>prompt_rq = ascii '' Health? '', user_rq = None, critical_rq = Some False\<rparr>"

definition hello_request :: OrchestrateIn where
  "hello_request = \<lparr>text_in = ascii ''hello'', user_in = None, critical_in = Some False\<rparr>"

definition critical_request :: OrchestrateIn where
  "critical_request = \<lparr>text_in = ascii ''hi'', user_in = None, critical_in = Some True\<rparr>"

definition critical_request_lg :: NLRequest where
  "critical_request_lg = \<lparr>prompt_rq = ascii ''hi'', user_rq = None, critical_rq = Some True\<rparr>"

definition redeploy_request :: OrchestrateIn where
  "redeploy_request = \<lparr>text_in = ascii ''please redeploy now'', user_in = None,
                         critical_in = Some False\<rparr>"

definition mixed_text :: ustr where
  "mixed_text = ascii '' Health: '' @ kw_jaebaepo @ ascii '' or rEDeploy ''"

definition folded_text :: ustr where
  "folded_text = ascii '' health: '' @ kw_jaebaepo @ ascii '' or redeploy ''"

definition cafe_text :: ustr where
  "cafe_text = ascii ''Caf'' @ [233] @ ascii '': HEALTH?''"

definition weather_text :: ustr where
  "weather_text = ascii ''what is the weather''"

section \<open>Evaluation rules\<close>

text \<open>
  Rules that let the simplifier run the definitions on concrete inputs: the digits of a
  numeral, the counters of a trace, and a run at a numeral step limit.
\<close>

lemma str_nat_digit [simp]: "n < 10 \<Longrightarrow> str_nat n = [48 + n]"
  by (simp add: str_nat.simps)

lemma str_nat_more [simp]: "\<not> n < 10 \<Longrightarrow> str_nat n = str_nat (n div 10) @ [48 + n mod 10]"
  by (subst str_nat.simps) simp

lemma health_gets_snoc [simp]: "health_gets (calls @ [c]) = health_gets calls + (if is_health c then 1 else 0)"
  by (simp add: health_gets_def)

lemma hook_posts_snoc [simp]: "hook_posts (calls @ [c]) = hook_posts calls + (if is_hook c then 1 else 0)"
  by (simp add: hook_posts_def)

lemma hook_posts_Nil [simp]: "hook_posts [] = 0"
  by (simp add: hook_posts_def)

lemma ainvoke_numeral:
  "ainvoke cfg U nw (numeral n) nd (state, calls) =
     (case run_node cfg U nw nd (state, calls) of
        (state', calls') \<Rightarrow>
          (case edge nd state' of
             None \<Rightarrow> if pred_numeral n = 0 then Stopped state' calls' else Finished state' calls'
           | Some nd' \<Rightarrow> ainvoke cfg U nw (pred_numeral n) nd' (state', calls')))"
  by (simp add: numeral_eq_Suc)

lemma graph_runner_numeral:
  "graph_runner cfg nw (numeral n) nd state calls =
     (case run_node_lg nd cfg nw state calls of
        (Inl e, calls1) \<Rightarrow> (Inl e, calls1)
      | (Inr (state1, None), calls1) \<Rightarrow> (Inr state1, calls1)
      | (Inr (state1, Some nd1), calls1) \<Rightarrow> graph_runner cfg nw (pred_numeral n) nd1 state1 calls1)"
  by (simp add: numeral_eq_Suc)

lemmas eval_text = ascii_def lower_def lower_cp_def ascii_lower_def hangul_def
  kw_baepo_def kw_jaebaepo_def kw_helseu_def kw_sangtae_def kw_saraiss_def

lemmas eval_strip = strip_def isspace_def

lemmas eval_search = re_search_I_def ci_char_def sre_lower_def

lemmas eval_main = ainvoke_numeral orchestrate_main_def graph_run_def init_state_def plan_node_def classify_main_def
  implement_node_def verify_node_def heal_node_def verify_router_def health_url_def str_int_def
  demo_main_config_def plain_U_def Let_def
  health_gets_def hook_posts_def llm_posts_def log_posts_def

lemmas eval_nets = calm_net_def timeout_net_def unhealthy_net_def no_content_net_def flaky_net_def
  log_down_net_def
  llm_down_net_def

lemmas eval_app = orchestrate_app_def quick_intent_def call_anthropic_app_def call_vercel_hooks_app_def
  call_health_app_def log_supabase_app_def choose_model_def demo_config_def no_hooks_config_def
  vercel_hooks_of_def plain_T_def health_gets_def hook_posts_def llm_posts_def log_posts_def

lemmas eval_lg = graph_runner_numeral orchestrate_lg_def classify_lg_def call_anthropic_lg_def
  call_vercel_hooks_lg_def call_health_lg_def log_supabase_lg_def node_plan_def node_implement_def
  node_verify_def node_heal_def node_done_def choose_model_def demo_config_def no_hooks_config_def
  vercel_hooks_of_def plain_T_def health_gets_def hook_posts_def llm_posts_def log_posts_def

lemma classify_demo: "classify_main plain_U (ascii ''please deploy'') = DEPLOY"
  by (simp add: classify_main_def eval_text plain_U_def)

lemma health_text_intent: "classify_main plain_U (ascii '' Health? '') = HEALTH"
  by (simp add: classify_main_def eval_text plain_U_def)

lemma health_request_intent: "quick_intent plain_T (strip (text_in health_request)) = ''health_check''"
  by (simp add: health_request_def quick_intent_def eval_text eval_strip eval_search plain_T_def)

lemma health_request_lg_intent: "classify_lg plain_T (strip (prompt_rq health_request_lg)) = ''health''"
  by (simp add: health_request_lg_def classify_lg_def eval_text eval_strip eval_search plain_T_def)

lemma redeploy_request_intent:
  "quick_intent plain_T (strip (text_in redeploy_request)) = ''deploy_frontend''"
  by (simp add: redeploy_request_def quick_intent_def eval_text eval_strip eval_search plain_T_def)

lemma no_hooks_demo: "vercel_hooks_of [] (ascii ''  '') = []"
  by (simp add: vercel_hooks_of_def eval_text eval_strip)

section \<open>Keywords and letter case\<close>

lemma starts_with_iff: "starts_with k s \<longleftrightarrow> (\<exists>post. s = k @ post)"
  by (induction k s rule: starts_with.induct) auto

lemma py_in_iff: "py_in k s \<longleftrightarrow> (\<exists>pre post. s = pre @ k @ post)"
proof (induction s)
  case Nil
  then show ?case by auto
next
  case (Cons c cs)
  have "(\<exists>pre post. c # cs = pre @ k @ post)
        \<longleftrightarrow> (\<exists>post. c # cs = k @ post) \<or> (\<exists>pre post. cs = pre @ k @ post)"
  proof
    assume "\<exists>pre post. c # cs = pre @ k @ post"
    then obtain pre post where e: "c # cs = pre @ k @ post" by blast
    show "(\<exists>post. c # cs = k @ post) \<or> (\<exists>pre post. cs = pre @ k @ post)"
    proof (cases pre)
      case Nil
      with e show ?thesis by auto
    next
      case (Cons a pre')
      with e have "cs = pre' @ k @ post" by simp
      then show ?thesis by blast
    qed
  next
    assume "(\<exists>post. c # cs = k @ post) \<or> (\<exists>pre post. cs = pre @ k @ post)"
    then show "\<exists>pre post. c # cs = pre @ k @ post"
    proof
      assume "\<exists>post. c # cs = k @ post"
      then obtain post where "c # cs = [] @ k @ post" by auto
      then show ?thesis by blast
    next
      assume "\<exists>pre post. cs = pre @ k @ post"
      then obtain pre post where "c # cs = (c # pre) @ k @ post" by auto
      then show ?thesis by blast
    qed
  qed
  with Cons show ?case by (simp add: starts_with_iff)
qed

lemma ci_starts_with_iff:
  "ci_starts_with T k s \<longleftrightarrow> (\<exists>w post. s = w @ post \<and> list_all2 (ci_char T) k w)"
proof (induction T k s rule: ci_starts_with.induct)
  case (1 T s)
  then show ?case by simp
next
  case (2 T p ps)
  then show ?case by (simp add: list_all2_Cons1)
next
  case (3 T p ps c cs)
  show ?case
  proof
    assume "ci_starts_with T (p # ps) (c # cs)"
    with 3 obtain w post where "cs = w @ post" "list_all2 (ci_char T) ps w" "ci_char T p c"
      by auto
    then have "c # cs = (c # w) @ post \<and> list_all2 (ci_char T) (p # ps) (c # w)" by simp
    then show "\<exists>w post. c # cs = w @ post \<and> list_all2 (ci_char T) (p # ps) w" by blast
  next
    assume "\<exists>w post. c # cs = w @ post \<and> list_all2 (ci_char T) (p # ps) w"
    then obtain w post where e: "c # cs = w @ post" and a: "list_all2 (ci_char T) (p # ps) w"
      by blast
    from a obtain c' w' where w: "w = c' # w'" "ci_char T p c'" "list_all2 (ci_char T) ps w'"
      by (auto simp: list_all2_Cons1)
    with e have "c' = c" "cs = w' @ post" by simp_all
    with w 3 show "ci_starts_with T (p # ps) (c # cs)" by auto
  qed
qed

lemma ci_search_intro:
  "list_all2 (ci_char T) k w \<Longrightarrow> ci_search T k (pre @ w @ post)"
proof (induction pre)
  case Nil
  show ?case
  proof (cases "w @ post")
    case Nil
    with Nil.prems show ?thesis by simp
  next
    case (Cons c cs)
    have "ci_starts_with T k (w @ post)"
      using Nil.prems ci_starts_with_iff by blast
    with Cons show ?thesis by simp
  qed
next
  case (Cons a pre)
  then show ?case by simp
qed

lemma plain_char:
  assumes "ascii_lower c = p" and "(97 \<le> p \<and> p \<le> 122) \<or> hangul p"
  shows "lower_cp U c = [p] \<and> ci_char T p c \<and> \<not> isspace c"
  using assms
  by (auto simp: lower_cp_def ci_char_def sre_lower_def ascii_lower_def hangul_def isspace_def
      split: if_splits)

lemma plain_image:
  "map ascii_lower w = k \<Longrightarrow> list_all (\<lambda>p. (97 \<le> p \<and> p \<le> 122) \<or> hangul p) k \<Longrightarrow>
     lower U w = k \<and> list_all2 (ci_char T) k w \<and> (\<forall>c\<in>set w. \<not> isspace c)"
proof (induction w arbitrary: k)
  case Nil
  then show ?case by (simp add: lower_def)
next
  case (Cons c w)
  then obtain p k' where k: "k = p # k'" "ascii_lower c = p" "map ascii_lower w = k'"
    by auto
  with Cons.prems have pp: "(97 \<le> p \<and> p \<le> 122) \<or> hangul p"
    and rest: "list_all (\<lambda>p. (97 \<le> p \<and> p \<le> 122) \<or> hangul p) k'"
    by simp_all
  from Cons.IH [OF k(3) rest]
  have ih: "lower U w = k'" "list_all2 (ci_char T) k' w" "\<forall>c\<in>set w. \<not> isspace c"
    by (simp_all add: lower_def)
  from plain_char [OF k(2) pp, of U T] ih k show ?case
    by (simp add: lower_def)
qed

lemma plain_word_fixed: "list_all (\<lambda>p. (97 \<le> p \<and> p \<le> 122) \<or> hangul p) k \<Longrightarrow> map ascii_lower k = k"
  by (induction k) (auto simp: ascii_lower_def hangul_def)

lemma mentions_split:
  assumes "plain_word k" and "mentions k text"
  shows "\<exists>pre w post. text = pre @ w @ post \<and> map ascii_lower w = k"
proof -
  from assms have "py_in k (map ascii_lower text)"
    by (simp add: mentions_def plain_word_def plain_word_fixed)
  then obtain a b where "map ascii_lower text = a @ k @ b"
    using py_in_iff by blast
  then have "\<exists>us vs. text = us @ vs \<and> a = map ascii_lower us \<and> k @ b = map ascii_lower vs"
    by (simp only: map_eq_append_conv)
  then obtain us vs where u: "text = us @ vs" and v: "map ascii_lower vs = k @ b"
    by metis
  from v have "\<exists>w post. vs = w @ post \<and> k = map ascii_lower w \<and> b = map ascii_lower post"
    by (simp only: map_eq_append_conv)
  then obtain w post where "vs = w @ post" and "map ascii_lower w = k"
    by metis
  with u show ?thesis by blast
qed

lemma lower_append: "lower U (xs @ ys) = lower U xs @ lower U ys"
  by (simp add: lower_def)

lemma mentions_lower:
  assumes "plain_word k" and "mentions k text"
  shows "py_in k (lower U text)"
proof -
  from mentions_split [OF assms] obtain pre w post
    where t: "text = pre @ w @ post" and w: "map ascii_lower w = k" by blast
  from plain_image [OF w] assms(1) have "lower U w = k" by (simp add: plain_word_def)
  with t have "lower U text = lower U pre @ k @ lower U post" by (simp add: lower_append)
  then show ?thesis using py_in_iff by blast
qed

lemma dropWhile_keeps_word:
  "w \<noteq> [] \<Longrightarrow> \<not> P (hd w) \<Longrightarrow> \<exists>pre1. dropWhile P (pre @ w @ post) = pre1 @ w @ post"
proof (induction pre)
  case Nil
  then have "dropWhile P (w @ post) = [] @ w @ post" by (cases w) simp_all
  then show ?case by (metis append_Nil)
next
  case (Cons a pre)
  show ?case
  proof (cases "P a")
    case True
    with Cons show ?thesis by simp
  next
    case False
    then have "dropWhile P ((a # pre) @ w @ post) = (a # pre) @ w @ post" by simp
    then show ?thesis by blast
  qed
qed

lemma strip_keeps_word:
  assumes "w \<noteq> []" and "\<forall>c\<in>set w. \<not> isspace c"
  shows "\<exists>pre1 post1. strip (pre @ w @ post) = pre1 @ w @ post1"
proof -
  from assms have h: "\<not> isspace (hd w)" by simp
  from dropWhile_keeps_word [where P = isspace and w = w and pre = pre and post = post, OF assms(1) h]
  obtain pre1 where a: "dropWhile isspace (pre @ w @ post) = pre1 @ w @ post" by blast
  from assms have r: "rev w \<noteq> []" "\<not> isspace (hd (rev w))"
    by (simp_all add: hd_rev)
  from dropWhile_keeps_word [where P = isspace and w = "rev w" and pre = "rev post" and post = "rev pre1", OF r]
  obtain post1 where b: "dropWhile isspace (rev post @ rev w @ rev pre1) = post1 @ rev w @ rev pre1"
    by blast
  have "strip (pre @ w @ post) = pre1 @ w @ rev post1"
    by (simp add: strip_def a b)
  then show ?thesis by blast
qed

lemma mentions_search:
  assumes "plain_word k" and "mentions k text"
  shows "ci_search T k (strip text)"
proof -
  from mentions_split [OF assms] obtain pre w post
    where t: "text = pre @ w @ post" and w: "map ascii_lower w = k" by blast
  from plain_image [OF w, of U T] assms(1)
  have m: "list_all2 (ci_char T) k w" and ns: "\<forall>c\<in>set w. \<not> isspace c"
    by (simp_all add: plain_word_def)
  from w assms(1) have "w \<noteq> []" by (auto simp: plain_word_def)
  from strip_keeps_word [OF this ns, of pre post] t
  obtain pre1 post1 where "strip text = pre1 @ w @ post1" by blast
  with ci_search_intro [OF m] show ?thesis by simp
qed

lemma plain_keywords:
  "plain_word kw_baepo" "plain_word kw_jaebaepo" "plain_word (ascii ''deploy'')"
  "plain_word (ascii ''redeploy'')"
  by (simp_all add: plain_word_def eval_text)

lemma lower_cp_fold: "lower_cp U (ascii_lower c) = lower_cp U c"
  by (simp add: lower_cp_def ascii_lower_def hangul_def)

lemma lower_fold: "lower U (map ascii_lower s) = lower U s"
  by (induction s) (simp_all add: lower_def lower_cp_fold)

lemma ci_char_fold: "ci_char T p (ascii_lower c) = ci_char T p c"
  by (simp add: ci_char_def sre_lower_def ascii_lower_def hangul_def)

lemma ci_starts_with_fold: "ci_starts_with T k (map ascii_lower s) = ci_starts_with T k s"
  by (induction T k s rule: ci_starts_with.induct) (simp_all add: ci_char_fold)

lemma ci_search_fold: "ci_search T k (map ascii_lower s) = ci_search T k s"
proof (induction s)
  case Nil
  then show ?case by simp
next
  case (Cons c s)
  have "ci_starts_with T k (map ascii_lower (c # s)) = ci_starts_with T k (c # s)"
    by (rule ci_starts_with_fold)
  with Cons show ?case by simp
qed

lemma re_search_I_fold: "re_search_I T alts (map ascii_lower s) = re_search_I T alts s"
  by (induction alts) (simp_all add: re_search_I_def ci_search_fold)

lemma isspace_fold: "isspace (ascii_lower c) = isspace c"
  by (simp add: isspace_def ascii_lower_def)

lemma strip_fold: "strip (map ascii_lower s) = map ascii_lower (strip s)"
proof -
  have c: "isspace \<circ> ascii_lower = isspace"
    by (rule ext) (simp add: isspace_fold)
  have d: "dropWhile isspace (map ascii_lower xs) = map ascii_lower (dropWhile isspace xs)" for xs
    by (simp add: dropWhile_map c)
  have "strip (map ascii_lower s) = rev (dropWhile isspace (map ascii_lower (rev (dropWhile isspace s))))"
    unfolding strip_def d rev_map ..
  also have "\<dots> = map ascii_lower (rev (dropWhile isspace (rev (dropWhile isspace s))))"
    unfolding d rev_map ..
  finally show ?thesis by (simp add: strip_def)
qed

lemma classifiers_fold:
  "classify_main U (map ascii_lower s) = classify_main U s"
  "quick_intent T (strip (map ascii_lower s)) = quick_intent T (strip s)"
  "classify_lg T (strip (map ascii_lower s)) = classify_lg T (strip s)"
  by (simp_all add: classify_main_def quick_intent_def classify_lg_def lower_fold strip_fold
      re_search_I_fold)

lemma deploy_keyword_found:
  "(list_ex (\<lambda>k. mentions k text) [kw_baepo, kw_jaebaepo, ascii ''deploy'']
      \<longrightarrow> classify_main U text = DEPLOY)
   \<and> (list_ex (\<lambda>k. mentions k text) [kw_baepo, ascii ''redeploy'', ascii ''deploy'', kw_jaebaepo]
      \<longrightarrow> quick_intent T (strip text) = ''deploy_frontend'')
   \<and> (list_ex (\<lambda>k. mentions k text) [kw_baepo, ascii ''deploy'', kw_jaebaepo]
      \<longrightarrow> classify_lg T (strip text) = ''deploy'')
   \<and> (map ascii_lower text = map ascii_lower text'
      \<longrightarrow> classify_main U text = classify_main U text'
        \<and> quick_intent T (strip text) = quick_intent T (strip text')
        \<and> classify_lg T (strip text) = classify_lg T (strip text'))"
proof (intro conjI impI)
  assume "list_ex (\<lambda>k. mentions k text) [kw_baepo, kw_jaebaepo, ascii ''deploy'']"
  then have "list_ex (\<lambda>k. py_in k (lower U text)) [kw_baepo, kw_jaebaepo, ascii ''deploy'']"
    using mentions_lower [OF plain_keywords(1), of _ U]
      mentions_lower [OF plain_keywords(2), of _ U]
      mentions_lower [OF plain_keywords(3), of _ U]
    by auto
  then show "classify_main U text = DEPLOY"
    by (simp add: classify_main_def)
next
  assume "list_ex (\<lambda>k. mentions k text) [kw_baepo, ascii ''redeploy'', ascii ''deploy'', kw_jaebaepo]"
  then have "re_search_I T [kw_baepo, ascii ''redeploy'', ascii ''deploy'', kw_jaebaepo] (strip text)"
    using mentions_search [OF plain_keywords(1), of _ T]
      mentions_search [OF plain_keywords(2), of _ T]
      mentions_search [OF plain_keywords(3), of _ T]
      mentions_search [OF plain_keywords(4), of _ T]
    by (auto simp: re_search_I_def)
  then show "quick_intent T (strip text) = ''deploy_frontend''"
    by (simp add: quick_intent_def)
next
  assume "list_ex (\<lambda>k. mentions k text) [kw_baepo, ascii ''deploy'', kw_jaebaepo]"
  then have "re_search_I T [kw_baepo, ascii ''deploy'', kw_jaebaepo] (strip text)"
    using mentions_search [OF plain_keywords(1), of _ T]
      mentions_search [OF plain_keywords(2), of _ T]
      mentions_search [OF plain_keywords(3), of _ T]
    by (auto simp: re_search_I_def)
  then show "classify_lg T (strip text) = ''deploy''"
    by (simp add: classify_lg_def)
next
  assume e: "map ascii_lower text = map ascii_lower text'"
  show "classify_main U text = classify_main U text'"
    using classifiers_fold(1) [of U "text"] classifiers_fold(1) [of U "text'"] e by simp
next
  assume e: "map ascii_lower text = map ascii_lower text'"
  show "quick_intent T (strip text) = quick_intent T (strip text')"
    using classifiers_fold(2) [of T "text"] classifiers_fold(2) [of T "text'"] e by simp
next
  assume e: "map ascii_lower text = map ascii_lower text'"
  show "classify_lg T (strip text) = classify_lg T (strip text')"
    using classifiers_fold(3) [of T "text"] classifiers_fold(3) [of T "text'"] e by simp
qed

lemma plain_letters: "list_all (\<lambda>p. (97 \<le> p \<and> p \<le> 122) \<or> hangul p) k \<Longrightarrow> list_all plain_cp k"
  by (induction k) (auto simp: plain_cp_def)

lemma lower_alike:
  "list_all (neutral U T) s \<Longrightarrow> list_all2 alike (lower U s) (map ascii_lower s)"
proof (induction s)
  case Nil
  then show ?case by (simp add: lower_def)
next
  case (Cons c s)
  then have ih: "list_all2 alike (lower U s) (map ascii_lower s)" by simp
  from Cons.prems have n: "neutral U T c" by simp
  have "\<exists>x. lower_cp U c = [x] \<and> alike x (ascii_lower c)"
  proof (cases "plain_cp c")
    case True
    then show ?thesis
      by (auto simp: lower_cp_def plain_cp_def alike_def ascii_lower_def hangul_def)
  next
    case False
    with n obtain x where "U c = [x]" "\<not> plain_cp x"
      by (auto simp: neutral_def split: list.splits)
    with False show ?thesis
      by (auto simp: lower_cp_def plain_cp_def alike_def ascii_lower_def)
  qed
  then obtain x where "lower_cp U c = [x]" "alike x (ascii_lower c)" by blast
  with ih show ?case by (simp add: lower_def)
qed

lemma starts_with_alike:
  "list_all2 alike s1 s2 \<Longrightarrow> list_all plain_cp k \<Longrightarrow> starts_with k s1 = starts_with k s2"
proof (induction k arbitrary: s1 s2)
  case Nil
  then show ?case by simp
next
  case (Cons p ps)
  show ?case
  proof (cases s1)
    case Nil
    with Cons.prems show ?thesis by simp
  next
    case (Cons x xs)
    with Cons.prems(1) obtain y ys where s2: "s2 = y # ys" "alike x y" "list_all2 alike xs ys"
      by (auto simp: list_all2_Cons1)
    from Cons.prems(2) have pp: "plain_cp p" "list_all plain_cp ps" by simp_all
    from Cons.IH [OF s2(3) pp(2)] have "starts_with ps xs = starts_with ps ys" .
    moreover from s2(2) pp(1) have "(p = x) = (p = y)" by (auto simp: alike_def)
    ultimately show ?thesis using Cons s2 by simp
  qed
qed

lemma py_in_alike:
  "list_all2 alike s1 s2 \<Longrightarrow> list_all plain_cp k \<Longrightarrow> py_in k s1 = py_in k s2"
proof (induction s1 s2 rule: list_all2_induct)
  case Nil
  then show ?case by simp
next
  case (Cons x xs y ys)
  from Cons.hyps have "list_all2 alike (x # xs) (y # ys)" by simp
  from starts_with_alike [OF this Cons.prems]
  have "starts_with k (x # xs) = starts_with k (y # ys)" .
  with Cons show ?case by simp
qed

lemma lower_mentions:
  assumes "list_all (neutral U T) s" and "plain_word k"
  shows "py_in k (lower U s) = mentions k s"
proof -
  from assms(2) have f: "map ascii_lower k = k" and p: "list_all plain_cp k"
    by (simp_all add: plain_word_def plain_word_fixed plain_letters)
  from py_in_alike [OF lower_alike [OF assms(1)] p] f show ?thesis
    by (simp add: mentions_def)
qed

lemma ci_char_neutral:
  assumes "neutral U T c" and "(97 \<le> p \<and> p \<le> 122) \<or> hangul p"
  shows "ci_char T p c = (p = ascii_lower c)"
proof (cases "plain_cp c")
  case True
  with assms(2) show ?thesis
    by (auto simp: ci_char_def sre_lower_def ascii_lower_def hangul_def plain_cp_def)
next
  case False
  with assms(1) have "\<not> plain_cp (T c)" "c \<noteq> 305" "c \<noteq> 383"
    by (auto simp: neutral_def)
  with False assms(2) show ?thesis
    by (auto simp: ci_char_def sre_lower_def ascii_lower_def hangul_def plain_cp_def)
qed

lemma ci_starts_with_neutral:
  "list_all (neutral U T) s \<Longrightarrow> list_all (\<lambda>p. (97 \<le> p \<and> p \<le> 122) \<or> hangul p) k \<Longrightarrow>
     ci_starts_with T k s = starts_with k (map ascii_lower s)"
proof (induction T k s rule: ci_starts_with.induct)
  case (1 T s)
  then show ?case by simp
next
  case (2 T p ps)
  then show ?case by simp
next
  case (3 T p ps c cs)
  then have "ci_starts_with T ps cs = starts_with ps (map ascii_lower cs)" by simp
  moreover from 3 have "ci_char T p c = (p = ascii_lower c)"
    using ci_char_neutral [of U T c p] by simp
  ultimately show ?case by simp
qed

lemma ci_search_neutral:
  "list_all (neutral U T) s \<Longrightarrow> list_all (\<lambda>p. (97 \<le> p \<and> p \<le> 122) \<or> hangul p) k \<Longrightarrow>
     ci_search T k s = py_in k (map ascii_lower s)"
proof (induction s)
  case Nil
  then show ?case by simp
next
  case (Cons c s)
  from ci_starts_with_neutral [OF Cons.prems]
  have "ci_starts_with T k (c # s) = starts_with k (map ascii_lower (c # s))" .
  with Cons show ?case by simp
qed

lemma strip_inside: "\<exists>a b. s = a @ strip s @ b"
proof -
  let ?d = "dropWhile isspace s"
  have "s = takeWhile isspace s @ ?d" by simp
  moreover have "rev ?d = takeWhile isspace (rev ?d) @ dropWhile isspace (rev ?d)" by simp
  then have "?d = rev (dropWhile isspace (rev ?d)) @ rev (takeWhile isspace (rev ?d))"
    by (metis rev_append rev_rev_ident)
  ultimately have "s = takeWhile isspace s @ strip s @ rev (takeWhile isspace (rev ?d))"
    by (simp add: strip_def)
  then show ?thesis by blast
qed

lemma strip_neutral: "list_all P s \<Longrightarrow> list_all P (strip s)"
proof -
  assume a: "list_all P s"
  obtain x y where "s = x @ strip s @ y" using strip_inside by blast
  then have "list_all P (x @ strip s @ y)" using a by simp
  then show ?thesis by simp
qed

lemma mentions_strip:
  assumes "plain_word k"
  shows "mentions k (strip s) = mentions k s"
proof
  assume "mentions k (strip s)"
  then obtain a b where e: "map ascii_lower (strip s) = a @ map ascii_lower k @ b"
    using py_in_iff by (auto simp: mentions_def)
  obtain x y where "s = x @ strip s @ y" using strip_inside by blast
  then have "map ascii_lower s = map ascii_lower x @ map ascii_lower (strip s) @ map ascii_lower y"
    by (metis map_append)
  with e have "map ascii_lower s = (map ascii_lower x @ a) @ map ascii_lower k @ (b @ map ascii_lower y)"
    by simp
  then show "mentions k s"
    unfolding mentions_def py_in_iff by blast
next
  assume m: "mentions k s"
  from mentions_split [OF assms m] obtain pre w post
    where t: "s = pre @ w @ post" and w: "map ascii_lower w = k" by blast
  from plain_image [OF w] assms have ns: "\<forall>c\<in>set w. \<not> isspace c"
    by (simp add: plain_word_def)
  from w assms have "w \<noteq> []" by (auto simp: plain_word_def)
  from strip_keeps_word [OF this ns, of pre post] t
  obtain pre1 post1 where "strip s = pre1 @ w @ post1" by blast
  then have "map ascii_lower (strip s) = map ascii_lower pre1 @ k @ map ascii_lower post1"
    using w by simp
  moreover from assms have "map ascii_lower k = k"
    by (simp add: plain_word_def plain_word_fixed)
  ultimately show "mentions k (strip s)"
    unfolding mentions_def py_in_iff by auto
qed

lemma search_mentions:
  assumes "list_all (neutral U T) s" and "plain_word k"
  shows "ci_search T k (strip s) = mentions k s"
proof -
  from assms(2) have f: "map ascii_lower k = k"
    and p: "list_all (\<lambda>p. (97 \<le> p \<and> p \<le> 122) \<or> hangul p) k"
    by (simp_all add: plain_word_def plain_word_fixed)
  from ci_search_neutral [OF strip_neutral [OF assms(1)] p]
  have "ci_search T k (strip s) = mentions k (strip s)"
    using f by (simp add: mentions_def)
  with mentions_strip [OF assms(2)] show ?thesis by simp
qed

lemma plain_health_keywords:
  "plain_word kw_helseu" "plain_word kw_sangtae" "plain_word kw_saraiss"
  "plain_word (ascii ''health'')" "plain_word (ascii ''alive'')" "plain_word (ascii ''status'')"
  by (simp_all add: plain_word_def eval_text)

lemma classifiers_follow_the_order:
  assumes n: "list_all (neutral U T) s"
  shows "classify_main U s =
           (if list_ex (\<lambda>k. mentions k s) [kw_baepo, kw_jaebaepo, ascii ''deploy''] then DEPLOY
            else if list_ex (\<lambda>k. mentions k s) [kw_helseu, ascii ''health'', kw_sangtae, ascii ''alive'']
            then HEALTH else OTHER)"
    and "quick_intent T (strip s) =
           (if list_ex (\<lambda>k. mentions k s) [kw_baepo, ascii ''redeploy'', ascii ''deploy'', kw_jaebaepo]
            then ''deploy_frontend''
            else if list_ex (\<lambda>k. mentions k s)
                      [kw_helseu, ascii ''health'', kw_sangtae, ascii ''status'', kw_saraiss]
            then ''health_check'' else ''llm_plan'')"
    and "classify_lg T (strip s) =
           (if list_ex (\<lambda>k. mentions k s) [kw_baepo, ascii ''deploy'', kw_jaebaepo] then ''deploy''
            else if list_ex (\<lambda>k. mentions k s) [kw_helseu, ascii ''health'', kw_sangtae]
            then ''health'' else ''other'')"
  by (simp_all add: classify_main_def quick_intent_def classify_lg_def re_search_I_def
      lower_mentions [OF n] search_mentions [OF n] plain_keywords plain_health_keywords)

lemma neutral_demo:
  "list_all (neutral plain_U plain_T) cafe_text"
  "list_all (neutral plain_U plain_T) weather_text"
  by (simp_all add: neutral_def plain_cp_def hangul_def plain_U_def plain_T_def cafe_text_def
      weather_text_def ascii_def)

text \<open>
  Claim C2. Classification is a function of the text alone and follows the order Deploy,
  HealthCheck, Other. A text that holds a deploy keyword in any letter case is classified
  Deploy by each of the three classifiers, also when it holds a health keyword (no
  hypothesis excludes one); two texts that differ only in the case of ASCII letters get
  the same intent; and on a text of neutral code points each classifier answers Deploy
  when the text holds one of its deploy keywords, else HealthCheck when it holds one of
  its health keywords, else Other.
\<close>

theorem deploy_keywords_take_precedence:
  "(list_ex (\<lambda>k. mentions k text) [kw_baepo, kw_jaebaepo, ascii ''deploy'']
      \<longrightarrow> classify_main U text = DEPLOY)
   \<and> (list_ex (\<lambda>k. mentions k text) [kw_baepo, ascii ''redeploy'', ascii ''deploy'', kw_jaebaepo]
      \<longrightarrow> quick_intent T (strip text) = ''deploy_frontend'')
   \<and> (list_ex (\<lambda>k. mentions k text) [kw_baepo, ascii ''deploy'', kw_jaebaepo]
      \<longrightarrow> classify_lg T (strip text) = ''deploy'')
   \<and> (map ascii_lower text = map ascii_lower text'
      \<longrightarrow> classify_main U text = classify_main U text'
        \<and> quick_intent T (strip text) = quick_intent T (strip text')
        \<and> classify_lg T (strip text) = classify_lg T (strip text'))
   \<and> (list_all (neutral U T) text
      \<longrightarrow> classify_main U text =
           (if list_ex (\<lambda>k. mentions k text) [kw_baepo, kw_jaebaepo, ascii ''deploy''] then DEPLOY
            else if list_ex (\<lambda>k. mentions k text)
                      [kw_helseu, ascii ''health'', kw_sangtae, ascii ''alive'']
            then HEALTH else OTHER)
        \<and> quick_intent T (strip text) =
           (if list_ex (\<lambda>k. mentions k text)
                 [kw_baepo, ascii ''redeploy'', ascii ''deploy'', kw_jaebaepo]
            then ''deploy_frontend''
            else if list_ex (\<lambda>k. mentions k text)
                      [kw_helseu, ascii ''health'', kw_sangtae, ascii ''status'', kw_saraiss]
            then ''health_check'' else ''llm_plan'')
        \<and> classify_lg T (strip text) =
           (if list_ex (\<lambda>k. mentions k text) [kw_baepo, ascii ''deploy'', kw_jaebaepo] then ''deploy''
            else if list_ex (\<lambda>k. mentions k text) [kw_helseu, ascii ''health'', kw_sangtae]
            then ''health'' else ''other''))"
  using deploy_keyword_found [of "text" U T "text'"]
    classifiers_follow_the_order [of U T "text"]
  by blast

theorem deploy_keywords_take_precedence_witness:
  "list_ex (\<lambda>k. mentions k mixed_text) [kw_baepo, kw_jaebaepo, ascii ''deploy'']
   \<and> list_ex (\<lambda>k. mentions k mixed_text) [kw_baepo, ascii ''redeploy'', ascii ''deploy'', kw_jaebaepo]
   \<and> list_ex (\<lambda>k. mentions k mixed_text) [kw_baepo, ascii ''deploy'', kw_jaebaepo]
   \<and> mentions (ascii ''health'') mixed_text
   \<and> map ascii_lower mixed_text = map ascii_lower folded_text
   \<and> classify_main plain_U mixed_text = DEPLOY
   \<and> quick_intent plain_T (strip mixed_text) = ''deploy_frontend''
   \<and> classify_lg plain_T (strip mixed_text) = ''deploy''
   \<and> classify_main plain_U mixed_text = classify_main plain_U folded_text
   \<and> quick_intent plain_T (strip mixed_text) = quick_intent plain_T (strip folded_text)
   \<and> classify_lg plain_T (strip mixed_text) = classify_lg plain_T (strip folded_text)
   \<and> list_all (neutral plain_U plain_T) cafe_text
   \<and> classify_main plain_U cafe_text = HEALTH
   \<and> quick_intent plain_T (strip cafe_text) = ''health_check''
   \<and> classify_lg plain_T (strip cafe_text) = ''health''
   \<and> list_all (neutral plain_U plain_T) weather_text
   \<and> classify_main plain_U weather_text = OTHER
   \<and> quick_intent plain_T (strip weather_text) = ''llm_plan''
   \<and> classify_lg plain_T (strip weather_text) = ''other''"
proof -
  have m: "mentions kw_baepo mixed_text" "mentions (ascii ''health'') mixed_text"
    by (simp_all add: mentions_def mixed_text_def eval_text)
  have e: "map ascii_lower mixed_text = map ascii_lower folded_text"
    by (simp add: mixed_text_def folded_text_def eval_text)
  from m have h: "list_ex (\<lambda>k. mentions k mixed_text) [kw_baepo, kw_jaebaepo, ascii ''deploy'']"
    "list_ex (\<lambda>k. mentions k mixed_text) [kw_baepo, ascii ''redeploy'', ascii ''deploy'', kw_jaebaepo]"
    "list_ex (\<lambda>k. mentions k mixed_text) [kw_baepo, ascii ''deploy'', kw_jaebaepo]"
    by simp_all
  from deploy_keywords_take_precedence [of mixed_text plain_U plain_T folded_text] h m e
  have a: "classify_main plain_U mixed_text = DEPLOY
      \<and> quick_intent plain_T (strip mixed_text) = ''deploy_frontend''
      \<and> classify_lg plain_T (strip mixed_text) = ''deploy''
      \<and> classify_main plain_U mixed_text = classify_main plain_U folded_text
      \<and> quick_intent plain_T (strip mixed_text) = quick_intent plain_T (strip folded_text)
      \<and> classify_lg plain_T (strip mixed_text) = classify_lg plain_T (strip folded_text)"
    by blast
  from deploy_keywords_take_precedence [of cafe_text plain_U plain_T cafe_text] neutral_demo(1)
  have b: "classify_main plain_U cafe_text = HEALTH
      \<and> quick_intent plain_T (strip cafe_text) = ''health_check''
      \<and> classify_lg plain_T (strip cafe_text) = ''health''"
    by (simp add: mentions_def cafe_text_def eval_text)
  from deploy_keywords_take_precedence [of weather_text plain_U plain_T weather_text] neutral_demo(2)
  have c: "classify_main plain_U weather_text = OTHER
      \<and> quick_intent plain_T (strip weather_text) = ''llm_plan''
      \<and> classify_lg plain_T (strip weather_text) = ''other''"
    by (simp add: mentions_def weather_text_def eval_text)
  from a b c h m e neutral_demo show ?thesis by blast
qed

section \<open>main.py: the nodes\<close>

lemma post_hooks_keeps:
  "post_hooks nw hs (st, calls) = (st', calls') \<Longrightarrow>
     intent st' = intent st \<and> retries st' = retries st \<and> verify_passed st' = verify_passed st
     \<and> instruction st' = instruction st \<and> plan st' = plan st
     \<and> health_gets calls' = health_gets calls
     \<and> hook_posts calls' = hook_posts calls + length (filter (\<lambda>h. snd h \<noteq> []) hs)"
proof (induction hs arbitrary: st calls)
  case Nil
  then show ?case by simp
next
  case (Cons h hs)
  obtain idx hook where h: "h = (idx, hook)" by (cases h)
  show ?case
  proof (cases "hook = []")
    case True
    with Cons h show ?thesis by simp
  next
    case False
    show ?thesis
    proof (cases "hook_reply nw (hook_posts calls)")
      case (Response sc body js)
      with Cons.prems h False
      have "post_hooks nw hs
              (st\<lparr>logs := logs st @
                 [ascii ''[implement] vercel_hook_'' @ str_nat idx @ ascii '' status='' @ str_int sc]\<rparr>,
               calls @ [HookPost hook]) = (st', calls')"
        by simp
      from Cons.IH [OF this] h False show ?thesis by simp
    next
      case (Raises e)
      with Cons.prems h False
      have "post_hooks nw hs
              (st\<lparr>logs := logs st @
                 [ascii ''[implement] vercel_hook_'' @ str_nat idx @ ascii '' error='' @ e]\<rparr>,
               calls @ [HookPost hook]) = (st', calls')"
        by simp
      from Cons.IH [OF this] h False show ?thesis by simp
    qed
  qed
qed

lemma implement_node_keeps:
  assumes "implement_node cfg nw (st, calls) = (st', calls')"
  shows "intent st' = intent st \<and> retries st' = retries st \<and> verify_passed st' = verify_passed st
     \<and> instruction st' = instruction st \<and> plan st' = plan st
     \<and> health_gets calls' = health_gets calls
     \<and> hook_posts calls' = hook_posts calls
          + (if intent st = Some HEALTH then 0 else configured_hooks cfg)"
proof (cases "intent st = Some HEALTH")
  case True
  with assms show ?thesis by (auto simp: implement_node_def)
next
  case False
  with assms have "post_hooks nw [(1, VERCEL_HOOK_1 cfg), (2, VERCEL_HOOK_2 cfg)] (st, calls) = (st', calls')"
    by (simp add: implement_node_def)
  from post_hooks_keeps [OF this] False show ?thesis
    by (simp add: configured_hooks_def)
qed

lemma verify_node_sets:
  assumes "verify_node cfg nw (st, calls) = (st', calls')"
  shows "verify_passed st' = Some (answers_200 (health_reply nw (health_gets calls)))
     \<and> intent st' = intent st \<and> retries st' = retries st
     \<and> instruction st' = instruction st \<and> plan st' = plan st
     \<and> health_gets calls' = health_gets calls + 1
     \<and> hook_posts calls' = hook_posts calls"
  using assms by (cases "health_reply nw (health_gets calls)") (auto simp: verify_node_def answers_200_def)

lemma heal_node_bumps:
  assumes "heal_node cfg nw (st, calls) = (st', calls')"
  shows "retries st' = retries st + 1 \<and> intent st' = intent st
     \<and> verify_passed st' = verify_passed st
     \<and> instruction st' = instruction st \<and> plan st' = plan st
     \<and> health_gets calls' = health_gets calls
     \<and> hook_posts calls' = hook_posts calls
          + (if intent st = Some HEALTH then 0 else configured_hooks cfg)"
proof -
  from assms have "implement_node cfg nw
      (st\<lparr>retries := retries st + 1,
          logs := logs st @ [ascii ''[heal] attempt='' @ str_int (retries st + 1) @ [32, 8594, 32]
                        @ ascii ''redeploy'']\<rparr>, calls) = (st', calls')"
    by (simp add: heal_node_def Let_def)
  from implement_node_keeps [OF this] show ?thesis by simp
qed

lemma plan_node_sets:
  "intent (plan_node U st) = Some (classify_main U (instruction st))
   \<and> retries (plan_node U st) = retries st \<and> verify_passed (plan_node U st) = verify_passed st
   \<and> instruction (plan_node U st) = instruction st"
  by (simp add: plan_node_def Let_def)

text \<open>
  Claim C10. After every execution of the verify step the state's \<open>verify_passed\<close> is a
  defined boolean: both the path on which the probe answers and the path on which it
  raises assign it (the latter assigns \<open>False\<close>), so the router that follows reads a
  defined value.
\<close>

theorem verify_node_assigns_verify_passed:
  "(\<exists>b. verify_passed (fst (verify_node cfg nw (state, calls))) = Some b)
   \<and> (\<forall>e. health_reply nw (health_gets calls) = Raises e
        \<longrightarrow> verify_passed (fst (verify_node cfg nw (state, calls))) = Some False)"
  by (cases "health_reply nw (health_gets calls)") (auto simp: verify_node_def)

theorem verify_node_assigns_verify_passed_witness:
  "health_reply timeout_net (health_gets []) = Raises (ascii ''timed out'')
   \<and> verify_passed (fst (verify_node demo_main_config timeout_net
         (init_state (ascii ''deploy''), []))) = Some False"
  using verify_node_assigns_verify_passed
    [of demo_main_config timeout_net "init_state (ascii ''deploy'')" "[]"]
  by (simp add: timeout_net_def)

section \<open>main.py: the verify and heal loop\<close>

lemma verify_phase:
  assumes nh: "intent st \<noteq> Some HEALTH" and r0: "retries st = 0"
  shows "\<exists>st' calls'. ainvoke cfg U nw (Suc (Suc (Suc (Suc k)))) Verify (st, calls) = Finished st' calls'
     \<and> intent st' = intent st
     \<and> (if answers_200 (health_reply nw (health_gets calls))
         then retries st' = 0 \<and> verify_passed st' = Some True
              \<and> hook_posts calls' = hook_posts calls
         else retries st' = 1
              \<and> verify_passed st' = Some (answers_200 (health_reply nw (health_gets calls + 1)))
              \<and> hook_posts calls' = hook_posts calls + configured_hooks cfg)"
proof -
  obtain s1 c1 where v1: "verify_node cfg nw (st, calls) = (s1, c1)"
    by (cases "verify_node cfg nw (st, calls)")
  note f1 = verify_node_sets [OF v1]
  show ?thesis
  proof (cases "answers_200 (health_reply nw (health_gets calls))")
    case True
    with f1 nh have "verify_router s1 = None" by (simp add: verify_router_def)
    with v1 f1 True r0 show ?thesis by simp
  next
    case False
    with f1 nh r0 have e1: "verify_router s1 = Some Heal" by (simp add: verify_router_def)
    obtain s2 c2 where h2: "heal_node cfg nw (s1, c1) = (s2, c2)"
      by (cases "heal_node cfg nw (s1, c1)")
    note f2 = heal_node_bumps [OF h2]
    obtain s3 c3 where v3: "verify_node cfg nw (s2, c2) = (s3, c3)"
      by (cases "verify_node cfg nw (s2, c2)")
    note f3 = verify_node_sets [OF v3]
    from f1 f2 f3 nh r0 have e3: "verify_router s3 = None" by (simp add: verify_router_def)
    have "ainvoke cfg U nw (Suc (Suc (Suc (Suc k)))) Verify (st, calls) = Finished s3 c3"
      using v1 e1 h2 v3 e3 by simp
    with f1 f2 f3 nh r0 False show ?thesis by simp
  qed
qed

lemma graph_run_not_health:
  assumes nh: "classify_main U text \<noteq> HEALTH" and lim: "6 \<le> limit"
  shows "\<exists>st' calls'. graph_run cfg U nw limit text = Finished st' calls'
     \<and> intent st' = Some (classify_main U text)
     \<and> (if answers_200 (health_reply nw 0)
         then retries st' = 0 \<and> verify_passed st' = Some True
              \<and> hook_posts calls' = configured_hooks cfg
         else retries st' = 1
              \<and> verify_passed st' = Some (answers_200 (health_reply nw 1))
              \<and> hook_posts calls' = 2 * configured_hooks cfg)"
proof -
  define k where "k = limit - 6"
  with lim have k: "limit = Suc (Suc (Suc (Suc (Suc (Suc k)))))"
    by simp
  let ?s0 = "plan_node U (init_state text)"
  note f0 = plan_node_sets [of U "init_state text"]
  obtain s1 c1 where i1: "implement_node cfg nw (?s0, []) = (s1, c1)"
    by (cases "implement_node cfg nw (?s0, [])")
  note f1 = implement_node_keeps [OF i1]
  from f0 f1 nh have nh1: "intent s1 \<noteq> Some HEALTH" and r1: "retries s1 = 0"
    by (simp_all add: init_state_def)
  from f1 have hg: "health_gets c1 = 0" by (simp add: health_gets_def)
  from f1 f0 nh have hp: "hook_posts c1 = configured_hooks cfg"
    by (simp add: hook_posts_def init_state_def)
  from verify_phase [OF nh1 r1, of cfg U nw k c1]
  obtain st' calls' where run: "ainvoke cfg U nw (Suc (Suc (Suc (Suc k)))) Verify (s1, c1) = Finished st' calls'"
    and keep: "intent st' = intent s1"
    and res: "if answers_200 (health_reply nw (health_gets c1))
         then retries st' = 0 \<and> verify_passed st' = Some True
              \<and> hook_posts calls' = hook_posts c1
         else retries st' = 1
              \<and> verify_passed st' = Some (answers_200 (health_reply nw (health_gets c1 + 1)))
              \<and> hook_posts calls' = hook_posts c1 + configured_hooks cfg"
    by blast
  have "graph_run cfg U nw limit text = Finished st' calls'"
    using k i1 run by (simp add: graph_run_def)
  moreover have "intent st' = Some (classify_main U text)"
    using keep f1 f0 by (simp add: init_state_def)
  ultimately show ?thesis using res hg hp by (auto split: if_splits)
qed

text \<open>
  Claim C8, as stated: a probe that succeeds at once would end the request with
  \<open>verify_passed = True\<close> and \<open>retries = 0\<close>. The specification counts every status of
  the 200 range as a success; \<open>verify_node\<close> passes the probe at status 200 only. At a
  probe that answers 204 the Deploy request ends with \<open>verify_passed = False\<close> after one
  heal and a second round of webhook posts.
\<close>

theorem status_204_is_a_failed_probe:
  "spec_probe_success (health_reply no_content_net 0)
   \<and> finished (graph_run demo_main_config plain_U no_content_net 25 (ascii ''please deploy''))
   \<and> verify_passed (final_state
         (graph_run demo_main_config plain_U no_content_net 25 (ascii ''please deploy''))) = Some False
   \<and> retries (final_state
         (graph_run demo_main_config plain_U no_content_net 25 (ascii ''please deploy''))) = 1
   \<and> hook_posts (calls_made
         (graph_run demo_main_config plain_U no_content_net 25 (ascii ''please deploy''))) = 2"
proof -
  have nh: "classify_main plain_U (ascii ''please deploy'') \<noteq> HEALTH"
    by (simp add: classify_demo)
  have f: "\<not> answers_200 (health_reply no_content_net k)" for k
    by (simp add: no_content_net_def calm_net_def answers_200_def)
  have c: "configured_hooks demo_main_config = 1"
    by (simp add: configured_hooks_def demo_main_config_def ascii_def)
  have s: "spec_probe_success (health_reply no_content_net 0)"
    by (simp add: no_content_net_def calm_net_def spec_probe_success_def)
  from graph_run_not_health [OF nh, of 25 demo_main_config no_content_net] f c s
  show ?thesis by auto
qed

text \<open>
  Claim C8, amended. For a Deploy intent: when the health probe fails twice in a row (an
  exception or a status other than 200) the run ends with \<open>verify_passed = False\<close> and
  \<open>retries = 1\<close>; when the first probe answers with status 200 it ends with
  \<open>verify_passed = True\<close> and \<open>retries = 0\<close>. The run ends at every recursion limit of
  six or more, far below the default.
\<close>

theorem deploy_probe_outcomes:
  assumes "classify_main U text = DEPLOY" and "6 \<le> limit"
  shows "(\<not> answers_200 (health_reply nw 0) \<and> \<not> answers_200 (health_reply nw 1) \<longrightarrow>
           finished (graph_run cfg U nw limit text)
           \<and> verify_passed (final_state (graph_run cfg U nw limit text)) = Some False
           \<and> retries (final_state (graph_run cfg U nw limit text)) = 1)
       \<and> (answers_200 (health_reply nw 0) \<longrightarrow>
           finished (graph_run cfg U nw limit text)
           \<and> verify_passed (final_state (graph_run cfg U nw limit text)) = Some True
           \<and> retries (final_state (graph_run cfg U nw limit text)) = 0)"
proof -
  from assms(1) have "classify_main U text \<noteq> HEALTH" by simp
  from graph_run_not_health [OF this assms(2), of cfg nw]
  show ?thesis by (auto split: if_splits)
qed

theorem deploy_probe_outcomes_witness:
  "classify_main plain_U (ascii ''please deploy'') = DEPLOY \<and> (6::nat) \<le> 25
   \<and> \<not> answers_200 (health_reply unhealthy_net 0)
   \<and> \<not> answers_200 (health_reply unhealthy_net 1)
   \<and> finished (graph_run demo_main_config plain_U unhealthy_net 25 (ascii ''please deploy''))
   \<and> verify_passed (final_state
         (graph_run demo_main_config plain_U unhealthy_net 25 (ascii ''please deploy''))) = Some False
   \<and> retries (final_state
         (graph_run demo_main_config plain_U unhealthy_net 25 (ascii ''please deploy''))) = 1
   \<and> answers_200 (health_reply calm_net 0)
   \<and> finished (graph_run demo_main_config plain_U calm_net 25 (ascii ''please deploy''))
   \<and> verify_passed (final_state
         (graph_run demo_main_config plain_U calm_net 25 (ascii ''please deploy''))) = Some True
   \<and> retries (final_state
         (graph_run demo_main_config plain_U calm_net 25 (ascii ''please deploy''))) = 0"
proof -
  have c: "classify_main plain_U (ascii ''please deploy'') = DEPLOY" by (rule classify_demo)
  have l: "(6::nat) \<le> 25" by simp
  have f: "\<not> answers_200 (health_reply unhealthy_net k)" for k
    by (simp add: unhealthy_net_def calm_net_def answers_200_def)
  have s: "answers_200 (health_reply calm_net 0)"
    by (simp add: calm_net_def answers_200_def)
  from deploy_probe_outcomes [OF c l, of unhealthy_net demo_main_config]
    deploy_probe_outcomes [OF c l, of calm_net demo_main_config]
    c l f s
  show ?thesis by blast
qed

lemma health_loop:
  "intent st = Some HEALTH \<Longrightarrow> \<forall>k. \<not> answers_200 (health_reply nw k) \<Longrightarrow>
     (\<not> finished (ainvoke cfg U nw limit Verify (st, calls))
        \<and> retries (final_state (ainvoke cfg U nw limit Verify (st, calls)))
            = retries st + int (limit div 2))
     \<and> (\<not> finished (ainvoke cfg U nw limit Heal (st, calls))
        \<and> retries (final_state (ainvoke cfg U nw limit Heal (st, calls)))
            = retries st + int (Suc limit div 2))"
proof (induction limit arbitrary: st calls)
  case 0
  then show ?case by simp
next
  case (Suc limit)
  obtain s1 c1 where v: "verify_node cfg nw (st, calls) = (s1, c1)"
    by (cases "verify_node cfg nw (st, calls)")
  note f1 = verify_node_sets [OF v]
  from f1 Suc.prems have e1: "verify_router s1 = Some Heal"
    by (simp add: verify_router_def)
  from f1 Suc.prems have i1: "intent s1 = Some HEALTH" by simp
  obtain s2 c2 where h: "heal_node cfg nw (st, calls) = (s2, c2)"
    by (cases "heal_node cfg nw (st, calls)")
  note f2 = heal_node_bumps [OF h]
  from f2 Suc.prems have i2: "intent s2 = Some HEALTH" by simp
  have a: "ainvoke cfg U nw (Suc limit) Verify (st, calls) = ainvoke cfg U nw limit Heal (s1, c1)"
    using v e1 by simp
  have b: "ainvoke cfg U nw (Suc limit) Heal (st, calls) = ainvoke cfg U nw limit Verify (s2, c2)"
    using h by simp
  from Suc.IH [OF i1 Suc.prems(2), of c1] Suc.IH [OF i2 Suc.prems(2), of c2] f1 f2
  show ?case unfolding a b by simp
qed

lemma graph_run_health_unbounded:
  assumes "classify_main U text = HEALTH" and "\<forall>k. \<not> answers_200 (health_reply nw k)"
  shows "\<not> finished (graph_run cfg U nw limit text)
     \<and> retries (final_state (graph_run cfg U nw limit text)) = int ((limit - 2) div 2)"
proof -
  let ?s0 = "plan_node U (init_state text)"
  note f0 = plan_node_sets [of U "init_state text"]
  obtain s1 c1 where i1: "implement_node cfg nw (?s0, []) = (s1, c1)"
    by (cases "implement_node cfg nw (?s0, [])")
  note f1 = implement_node_keeps [OF i1]
  from f0 f1 assms(1) have h1: "intent s1 = Some HEALTH" and r1: "retries s1 = 0"
    by (simp_all add: init_state_def)
  show ?thesis
  proof (cases limit)
    case 0
    then show ?thesis by (simp add: graph_run_def init_state_def)
  next
    case (Suc k)
    show ?thesis
    proof (cases k)
      case 0
      with Suc i1 f1 f0 show ?thesis by (simp add: graph_run_def init_state_def)
    next
      case (Suc j)
      with \<open>limit = Suc k\<close> i1
      have "graph_run cfg U nw limit text = ainvoke cfg U nw j Verify (s1, c1)"
        by (simp add: graph_run_def)
      with health_loop [OF h1 assms(2), of cfg U j c1] r1 Suc \<open>limit = Suc k\<close>
      show ?thesis by simp
    qed
  qed
qed

text \<open>
  Claim C1. The claim bounds the retries of every request by one. The router of main.py
  bounds the heals of a Deploy (and of any other non-health) request, as
  \<open>graph_run_not_health\<close> shows, but its health branch heals whenever the probe has failed,
  with no look at the retry counter. Evaluated at the text \<open>health\<close>: when the probe fails
  twice and then answers 200 the run ends with \<open>retries = 2\<close>; when the probe never answers
  the run is stopped by the recursion limit of 25 after eleven heals, and the request ends
  with an exception (\<open>graph_run_health_unbounded\<close> gives the count at every limit).
\<close>

theorem health_path_heals_without_bound:
  "finished (graph_run demo_main_config plain_U flaky_net 25 (ascii ''health''))
   \<and> retries (final_state (graph_run demo_main_config plain_U flaky_net 25 (ascii ''health''))) = 2
   \<and> verify_passed (final_state (graph_run demo_main_config plain_U flaky_net 25 (ascii ''health'')))
        = Some True
   \<and> fst (orchestrate_main demo_main_config plain_U timeout_net 25 (ascii ''health''))
        = Inl RecursionLimit
   \<and> retries (final_state (graph_run demo_main_config plain_U timeout_net 25 (ascii ''health''))) = 11"
proof -
  have c: "classify_main plain_U (ascii ''health'') = HEALTH"
    by (simp add: classify_main_def eval_text plain_U_def)
  have f: "\<forall>k. \<not> answers_200 (health_reply timeout_net k)"
    by (simp add: timeout_net_def answers_200_def)
  from graph_run_health_unbounded [OF c f, of demo_main_config 25]
  have s: "\<not> finished (graph_run demo_main_config plain_U timeout_net 25 (ascii ''health''))"
    and r: "retries (final_state (graph_run demo_main_config plain_U timeout_net 25 (ascii ''health''))) = 11"
    by simp_all
  from s have "fst (orchestrate_main demo_main_config plain_U timeout_net 25 (ascii ''health''))
        = Inl RecursionLimit"
    by (cases "graph_run demo_main_config plain_U timeout_net 25 (ascii ''health'')")
       (simp_all add: orchestrate_main_def)
  moreover have "finished (graph_run demo_main_config plain_U flaky_net 25 (ascii ''health''))
   \<and> retries (final_state (graph_run demo_main_config plain_U flaky_net 25 (ascii ''health''))) = 2
   \<and> verify_passed (final_state (graph_run demo_main_config plain_U flaky_net 25 (ascii ''health'')))
        = Some True"
    by (simp add: eval_main eval_nets eval_text)
  ultimately show ?thesis using r by simp
qed

lemma ainvoke_health_no_hooks:
  "intent st = Some HEALTH \<Longrightarrow> nd \<noteq> Plan \<Longrightarrow>
     hook_posts (calls_made (ainvoke cfg U nw limit nd (st, calls))) = hook_posts calls"
proof (induction limit arbitrary: nd st calls)
  case 0
  then show ?case by simp
next
  case (Suc limit)
  obtain st' calls' where step: "run_node cfg U nw nd (st, calls) = (st', calls')"
    by (cases "run_node cfg U nw nd (st, calls)")
  have keep: "intent st' = Some HEALTH \<and> hook_posts calls' = hook_posts calls"
  proof (cases nd)
    case Plan
    with Suc.prems show ?thesis by simp
  next
    case Implement
    with step have "implement_node cfg nw (st, calls) = (st', calls')" by simp
    from implement_node_keeps [OF this] Suc.prems show ?thesis by simp
  next
    case Verify
    with step have "verify_node cfg nw (st, calls) = (st', calls')" by simp
    from verify_node_sets [OF this] Suc.prems show ?thesis by simp
  next
    case Heal
    with step have "heal_node cfg nw (st, calls) = (st', calls')" by simp
    from heal_node_bumps [OF this] Suc.prems show ?thesis by simp
  qed
  show ?case
  proof (cases "edge nd st'")
    case None
    with step keep show ?thesis by simp
  next
    case (Some nd')
    have "nd' \<noteq> Plan"
      using Some by (cases nd) (auto simp: verify_router_def split: if_splits)
    from Suc.IH [OF _ this, of st' calls'] keep step Some show ?thesis by simp
  qed
qed

lemma graph_run_health_no_hooks:
  assumes "classify_main U text = HEALTH"
  shows "hook_posts (calls_made (graph_run cfg U nw limit text)) = 0"
proof (cases limit)
  case 0
  then show ?thesis by (simp add: graph_run_def hook_posts_def)
next
  case (Suc k)
  have "intent (plan_node U (init_state text)) = Some HEALTH"
    using assms plan_node_sets [of U "init_state text"] by (simp add: init_state_def)
  from ainvoke_health_no_hooks [OF this, of Implement cfg U nw k "[]"]
  show ?thesis using Suc by (simp add: graph_run_def hook_posts_def)
qed

section \<open>The handlers\<close>

lemma call_health_app_hooks [simp]:
  "hook_posts (snd (call_health_app cfg nw calls)) = hook_posts calls"
  by (simp add: call_health_app_def split: outcome.splits)

lemma call_health_lg_hooks [simp]:
  "hook_posts (snd (call_health_lg cfg nw calls)) = hook_posts calls"
  by (simp add: call_health_lg_def split: outcome.splits)

lemma log_supabase_app_hooks [simp]:
  "hook_posts (log_supabase_app cfg nw level message meta calls) = hook_posts calls"
  by (simp add: log_supabase_app_def split: outcome.splits)

lemma log_supabase_lg_hooks [simp]:
  "hook_posts (snd (log_supabase_lg cfg nw action meta calls)) = hook_posts calls"
  by (simp add: log_supabase_lg_def split: outcome.splits)

lemma call_anthropic_lg_hooks [simp]:
  "hook_posts (snd (call_anthropic_lg cfg nw prm crit calls)) = hook_posts calls"
  by (simp add: call_anthropic_lg_def split: outcome.splits)

lemma orchestrate_app_health_no_hooks:
  assumes "quick_intent T (strip (text_in body)) = ''health_check''"
  shows "hook_posts (snd (orchestrate_app cfg T nw body)) = 0"
proof -
  obtain hl calls1 where h: "call_health_app cfg nw [] = (hl, calls1)"
    by (cases "call_health_app cfg nw []")
  from call_health_app_hooks [of cfg nw "[]"] h have "hook_posts calls1 = 0" by simp
  with assms h show ?thesis by (simp add: orchestrate_app_def)
qed

lemma graph_runner_health_no_hooks:
  "intent_lg state = ''health'' \<Longrightarrow> nd \<noteq> N_heal \<Longrightarrow>
     hook_posts (snd (graph_runner cfg nw limit nd state calls)) = hook_posts calls"
proof (induction limit arbitrary: nd state calls)
  case 0
  then show ?case by simp
next
  case (Suc limit)
  show ?case
  proof (cases nd)
    case N_plan
    obtain r calls1 where a: "call_anthropic_lg cfg nw
             (ascii ''Plan for intent: '' @ ascii (intent_lg state) @ [10] @ ascii ''Instruction: ''
              @ prompt state) False calls = (r, calls1)"
      by (cases "call_anthropic_lg cfg nw
             (ascii ''Plan for intent: '' @ ascii (intent_lg state) @ [10] @ ascii ''Instruction: ''
              @ prompt state) False calls")
    from call_anthropic_lg_hooks [of cfg nw _ False calls] a
    have c1: "hook_posts calls1 = hook_posts calls" by (metis snd_conv)
    show ?thesis
    proof (cases r)
      case (Inl e)
      with N_plan a c1 show ?thesis by (simp add: node_plan_def)
    next
      case (Inr pl)
      from Suc.IH [of "state\<lparr>plan_result := Some pl\<rparr>" N_verify calls1] Suc.prems
      have "hook_posts (snd (graph_runner cfg nw limit N_verify (state\<lparr>plan_result := Some pl\<rparr>) calls1))
              = hook_posts calls1" by simp
      with Inr N_plan a c1 Suc.prems show ?thesis by (simp add: node_plan_def)
    qed
  next
    case N_implement
    from Suc.IH [of "state\<lparr>implement_result := Some Skipped\<rparr>" N_verify calls] Suc.prems
    have "hook_posts (snd (graph_runner cfg nw limit N_verify (state\<lparr>implement_result := Some Skipped\<rparr>) calls))
            = hook_posts calls" by simp
    with N_implement Suc.prems show ?thesis by (simp add: node_implement_def)
  next
    case N_verify
    obtain v calls1 where h: "call_health_lg cfg nw calls = (v, calls1)"
      by (cases "call_health_lg cfg nw calls")
    from call_health_lg_hooks [of cfg nw calls] h
    have c1: "hook_posts calls1 = hook_posts calls" by simp
    from Suc.IH [of "state\<lparr>verify_result := Some (VerifyHealth v)\<rparr>" N_done calls1] Suc.prems
    have "hook_posts (snd (graph_runner cfg nw limit N_done
             (state\<lparr>verify_result := Some (VerifyHealth v)\<rparr>) calls1)) = hook_posts calls1" by simp
    with N_verify h c1 Suc.prems show ?thesis by (simp add: node_verify_def)
  next
    case N_heal
    with Suc.prems show ?thesis by simp
  next
    case N_done
    then show ?thesis by (simp add: node_done_def)
  qed
qed

lemma orchestrate_lg_health_no_hooks:
  assumes "classify_lg T (strip (prompt_rq req)) = ''health''"
  shows "hook_posts (snd (orchestrate_lg cfg T nw limit req)) = 0"
proof (cases "strip (prompt_rq req) = []")
  case True
  then show ?thesis by (simp add: orchestrate_lg_def)
next
  case False
  let ?s0 = "\<lparr>prompt = strip (prompt_rq req), intent_lg = classify_lg T (strip (prompt_rq req)),
                 user_lg = user_rq req, plan_result = None, implement_result = None,
                 verify_result = None, heal_result = None\<rparr>"
  obtain r calls1 where g: "graph_runner cfg nw limit N_plan ?s0 [] = (r, calls1)"
    by (cases "graph_runner cfg nw limit N_plan ?s0 []")
  from graph_runner_health_no_hooks [of ?s0 N_plan cfg nw limit "[]"] assms g
  have c1: "hook_posts calls1 = 0" by simp
  show ?thesis
  proof (cases r)
    case (Inl e)
    with False g c1 show ?thesis by (simp add: orchestrate_lg_def)
  next
    case (Inr final)
    obtain u calls2 where l: "log_supabase_lg cfg nw ''orchestrate'' final calls1 = (u, calls2)"
      by (cases "log_supabase_lg cfg nw ''orchestrate'' final calls1")
    from log_supabase_lg_hooks [of cfg nw "''orchestrate''" final calls1] l c1
    have "hook_posts calls2 = 0" by simp
    with False g Inr l show ?thesis by (cases u) (simp_all add: orchestrate_lg_def)
  qed
qed

text \<open>
  Claim C4. Dispatching a HealthCheck intent never invokes the redeploy action: whatever
  the health probes answer, and however long the run goes on, no webhook POST is made.
  It holds in the three variants: the graph of main.py (at every recursion limit, also on
  runs that the limit stops), current_app.py and main_langgraph.py.
\<close>

theorem health_check_never_redeploys:
  "(classify_main U text = HEALTH \<longrightarrow>
      hook_posts (calls_made (graph_run mcfg U nw limit text)) = 0)
   \<and> (quick_intent T (strip (text_in body)) = ''health_check'' \<longrightarrow>
      hook_posts (snd (orchestrate_app cfg T nw body)) = 0)
   \<and> (classify_lg T (strip (prompt_rq req)) = ''health'' \<longrightarrow>
      hook_posts (snd (orchestrate_lg cfg T nw limit req)) = 0)"
  using graph_run_health_no_hooks orchestrate_app_health_no_hooks orchestrate_lg_health_no_hooks
  by blast

theorem health_check_never_redeploys_witness:
  "classify_main plain_U (ascii '' Health? '') = HEALTH
   \<and> hook_posts (calls_made (graph_run demo_main_config plain_U timeout_net 25 (ascii '' Health? ''))) = 0
   \<and> quick_intent plain_T (strip (text_in health_request)) = ''health_check''
   \<and> hook_posts (snd (orchestrate_app demo_config plain_T timeout_net health_request)) = 0
   \<and> classify_lg plain_T (strip (prompt_rq health_request_lg)) = ''health''
   \<and> hook_posts (snd (orchestrate_lg demo_config plain_T timeout_net 25 health_request_lg)) = 0"
  using health_check_never_redeploys [of plain_U "ascii '' Health? ''" demo_main_config timeout_net 25
      plain_T health_request demo_config health_request_lg]
    health_request_intent health_request_lg_intent health_text_intent
  by simp

lemma strip_blank:
  assumes "\<forall>c\<in>set t. isspace c"
  shows "strip t = []"
proof -
  from assms have d: "dropWhile isspace t = []" by simp
  show ?thesis unfolding strip_def d by simp
qed

lemma blank_text_rejected:
  "strip (text_in body) = [] \<Longrightarrow>
     orchestrate_app cfg T nw body = (Inl (HTTPException 400 ''text is required''), [])"
  "strip (prompt_rq req) = [] \<Longrightarrow>
     orchestrate_lg cfg T nw limit req = (Inl (HTTPException 400 ''prompt is required''), [])"
  by (simp_all add: orchestrate_app_def orchestrate_lg_def)

text \<open>
  Claim C3. current_app.py and main_langgraph.py reject a blank text with a 400 before any
  call (\<open>blank_text_rejected\<close>). The handler of main.py has no such check: at the empty
  text it runs the graph, which classifies the text as \<open>other\<close>, posts to the configured
  webhook and probes the health endpoint; the run ends, and what the handler raises then
  is not the 400 of a rejected input.
\<close>

theorem main_orchestrate_accepts_empty_text:
  "snd (orchestrate_main demo_main_config plain_U calm_net 25 [])
      = [HookPost (ascii ''https://hooks.example/one''),
         HealthGet (ascii ''http://127.0.0.1:8000/health'')]
   \<and> fst (orchestrate_main demo_main_config plain_U calm_net 25 []) = Inl AttributeError
   \<and> finished (graph_run demo_main_config plain_U calm_net 25 [])
   \<and> intent (final_state (graph_run demo_main_config plain_U calm_net 25 [])) = Some OTHER
   \<and> snd (orchestrate_main demo_main_config plain_U calm_net 25 (ascii ''  ''))
      = [HookPost (ascii ''https://hooks.example/one''),
         HealthGet (ascii ''http://127.0.0.1:8000/health'')]"
  by (simp add: eval_main eval_nets eval_text)

lemma call_health_app_log_free:
  "call_health_app cfg (nw\<lparr>log_reply := l\<rparr>) calls = call_health_app cfg nw calls"
  by (simp add: call_health_app_def)

lemma hooks_loop_app_log_free:
  "hooks_loop_app (nw\<lparr>log_reply := l\<rparr>) hs w = hooks_loop_app nw hs w"
  by (induction nw hs w rule: hooks_loop_app.induct) (simp_all split: outcome.splits)

lemma call_anthropic_app_log_free:
  "call_anthropic_app cfg (nw\<lparr>log_reply := l\<rparr>) prm crit calls = call_anthropic_app cfg nw prm crit calls"
  by (simp add: call_anthropic_app_def)

lemma orchestrate_app_ignores_log_outcome:
  "fst (orchestrate_app cfg T (nw\<lparr>log_reply := l\<rparr>) body) = fst (orchestrate_app cfg T nw body)"
  by (simp add: orchestrate_app_def call_health_app_log_free call_anthropic_app_log_free
      call_vercel_hooks_app_def hooks_loop_app_log_free split: prod.splits sum.splits)

text \<open>
  Claim C5. \<open>log_supabase\<close> of current_app.py catches every exception of its POST, and the
  reply does not depend on the outcome of the log call (\<open>orchestrate_app_ignores_log_outcome\<close>).
  \<open>log_supabase\<close> of main_langgraph.py has no \<open>try\<close>: the same request gets a reply when
  the log call succeeds and an exception when the log call raises.
\<close>

theorem langgraph_log_failure_reaches_caller:
  "fst (orchestrate_lg demo_config plain_T log_down_net 25 health_request_lg)
      = Inl (HttpxError (ascii ''timed out''))
   \<and> fst (orchestrate_lg demo_config plain_T calm_net 25 health_request_lg)
      = Inr \<lparr>ok_lg = True, reply_intent = ''health'',
             reply_plan = Some (LlmAnswer True 200 ''claude-3-5-haiku-20240307'' (Decoded (ascii ''{}''))),
             reply_implement = None,
             reply_verify = Some (VerifyHealth (HealthChecked True 200 (ascii ''ok''))),
             reply_heal = None\<rparr>"
  by (simp add: eval_lg eval_nets eval_text eval_strip eval_search health_request_lg_def)

lemma call_health_app_degrades:
  "\<not> answers_200 (health_reply nw (health_gets calls)) \<Longrightarrow>
     \<not> health_ok (fst (call_health_app cfg nw calls))"
  by (simp add: call_health_app_def answers_200_def split: outcome.splits)

text \<open>
  Claim C6. The health probe and the webhook trigger catch the exceptions of their calls
  and report them in their result (\<open>call_health_app_degrades\<close>). \<open>call_anthropic\<close> guards
  only the decoding of the body: a POST that times out raises out of the action and out of
  the handler, in current_app.py and in main_langgraph.py alike.
\<close>

theorem llm_timeout_leaves_the_action:
  "orchestrate_app demo_config plain_T llm_down_net hello_request
      = (Inl (HttpxError (ascii ''timed out'')),
         [LlmPost (ascii ''https://api.anthropic.com/v1/messages'') ''claude-3-5-haiku-20240307'' 512
            (ascii ''hello'')])
   \<and> fst (call_anthropic_lg demo_config llm_down_net (ascii ''hello'') False [])
      = Inl (HttpxError (ascii ''timed out''))"
  by (simp add: eval_app eval_lg eval_nets eval_text eval_strip eval_search hello_request_def)

lemma orchestrate_app_escalation:
  assumes "strip (text_in body) \<noteq> []"
    and "quick_intent T (strip (text_in body)) = ''llm_plan''"
    and "ANTHROPIC_API_KEY cfg \<noteq> []"
  shows "models_asked (snd (orchestrate_app cfg T nw body))
     = [if critical_in body = Some True
           \<or> int (length (strip (text_in body))) > LLM_PROMOTION_THRESHOLD cfg
        then ''claude-3-5-sonnet-20240620'' else ''claude-3-5-haiku-20240307'']"
proof -
  have ap: "models_asked (xs @ ys) = models_asked xs @ models_asked ys" for xs ys
    by (induction xs rule: models_asked.induct) simp_all
  have m: "models_asked (log_supabase_app cfg nw level message meta calls) = models_asked calls"
    for level message meta calls
    by (simp add: log_supabase_app_def ap split: outcome.splits)
  from assms show ?thesis
    by (cases "llm_reply nw 0")
       (simp_all add: orchestrate_app_def call_anthropic_app_def m choose_model_def llm_posts_def)
qed

text \<open>
  Claim C7. current_app.py passes the critical flag of the request to the LLM action and
  escalates exactly when the flag is set or the text is longer than the threshold
  (\<open>orchestrate_app_escalation\<close>). main_langgraph.py accepts the flag in its request and
  never reads it: \<open>node_verify\<close> passes \<open>len(prompt) > 200\<close> in its place. At the prompt
  \<open>hi\<close> with \<open>critical = True\<close> both of its LLM calls ask for the small model, where
  current_app.py asks for the large one.
\<close>

theorem langgraph_drops_critical_flag:
  "models_asked (snd (orchestrate_lg demo_config plain_T calm_net 25 critical_request_lg))
      = [''claude-3-5-haiku-20240307'', ''claude-3-5-haiku-20240307'']
   \<and> models_asked (snd (orchestrate_app demo_config plain_T calm_net critical_request))
      = [''claude-3-5-sonnet-20240620'']"
  by (simp add: eval_lg eval_app eval_nets eval_text eval_strip eval_search critical_request_lg_def
      critical_request_def)

text \<open>
  Claim C9, as stated: with no webhook configured the Deploy step would hold a
  "not configured" result for each target. It holds no result at all: the list is empty.
\<close>

theorem no_hooks_result_is_empty:
  "fst (orchestrate_app no_hooks_config plain_T calm_net redeploy_request)
      = Inr \<lparr>ok = True, result_intent = ''deploy_frontend'',
             result_steps = [DeployStep [], HealthStep (HealthChecked True 200 (ascii ''ok''))]\<rparr>"
  by (simp add: eval_app eval_nets eval_text eval_strip eval_search redeploy_request_def)

text \<open>
  Claim C9, amended. With no webhook target configured, a Deploy request makes no webhook
  call and its redeploy result is the empty collection, not an error: the verify step
  still runs (one health probe when a health URL is configured, the result "missing"
  otherwise), no exception leaves the handler of current_app.py, and the reply has
  \<open>ok = True\<close>. The webhook action of main_langgraph.py returns the empty dictionary
  likewise.
\<close>

theorem deploy_without_hooks:
  assumes "VERCEL_HOOKS cfg = []"
    and "quick_intent T (strip (text_in body)) = ''deploy_frontend''"
  shows "(\<exists>calls. orchestrate_app cfg T nw body =
            (Inr \<lparr>ok = True, result_intent = ''deploy_frontend'',
                  result_steps = [DeployStep [], HealthStep (fst (call_health_app cfg nw []))]\<rparr>,
             calls)
          \<and> hook_posts calls = 0
          \<and> health_gets calls = (if API_HEALTH cfg = [] then 0 else 1))
       \<and> call_vercel_hooks_app cfg nw calls0 = ([], calls0)
       \<and> call_vercel_hooks_lg cfg nw calls0 = ([], calls0)"
proof -
  have ne: "strip (text_in body) \<noteq> []"
    using assms(2) by (auto simp: quick_intent_def re_search_I_def eval_text)
  obtain hl calls1 where h: "call_health_app cfg nw [] = (hl, calls1)"
    by (cases "call_health_app cfg nw []")
  have hp: "hook_posts calls1 = 0"
    using call_health_app_hooks [of cfg nw "[]"] h by simp
  have hg: "health_gets calls1 = (if API_HEALTH cfg = [] then 0 else 1)"
    using h by (auto simp: call_health_app_def health_gets_def split: outcome.splits if_splits)
  have lg: "health_gets (log_supabase_app cfg nw level message meta calls) = health_gets calls"
    for level message meta calls
    by (simp add: log_supabase_app_def split: outcome.splits)
  from assms ne h hp hg lg show ?thesis
    by (simp add: orchestrate_app_def call_vercel_hooks_app_def call_vercel_hooks_lg_def)
qed

theorem deploy_without_hooks_witness:
  "VERCEL_HOOKS no_hooks_config = []
   \<and> quick_intent plain_T (strip (text_in redeploy_request)) = ''deploy_frontend''
   \<and> (\<exists>calls. orchestrate_app no_hooks_config plain_T timeout_net redeploy_request =
            (Inr \<lparr>ok = True, result_intent = ''deploy_frontend'',
                  result_steps = [DeployStep [], HealthStep (HealthError (ascii ''timed out''))]\<rparr>,
             calls)
          \<and> hook_posts calls = 0 \<and> health_gets calls = 1)
   \<and> call_vercel_hooks_lg no_hooks_config timeout_net [] = ([], [])"
proof -
  have a: "VERCEL_HOOKS no_hooks_config = []"
    by (simp add: no_hooks_config_def no_hooks_demo)
  have h: "fst (call_health_app no_hooks_config timeout_net []) = HealthError (ascii ''timed out'')"
    by (simp add: call_health_app_def no_hooks_config_def demo_config_def timeout_net_def
        health_gets_def eval_text)
  have n: "API_HEALTH no_hooks_config \<noteq> []"
    by (simp add: no_hooks_config_def demo_config_def eval_text)
  from deploy_without_hooks [OF a redeploy_request_intent, of timeout_net "[]"] a h n
    redeploy_request_intent
  show ?thesis by simp
qed

end
